theory Spec2Isabelle
  imports Main "HOL-Library.Word" "HOL-Library.Product_Lexorder"
begin

unbundle bit_operations_syntax

section \<open>MinedMap.cpp: rendering region files into tile images\<close>

text \<open>
  A shallow embedding of \<^verbatim>\<open>src/MinedMap.cpp\<close>: \<^verbatim>\<open>addChunk\<close>, \<^verbatim>\<open>writePNG\<close>,
  \<^verbatim>\<open>doRegion\<close> and \<^verbatim>\<open>main\<close>. The file system, the clock and the failures of
  the system and library calls are explicit: a file system is a map from paths to files,
  and an environment record says which of the calls whose result the source tests fail.
\<close>

subsection \<open>Constants and types of the headers\<close>

type_synonym u32 = "32 word"
type_synonym u8 = "8 word"

datatype byte_order = LittleEndian | BigEndian

text \<open>
  \<^verbatim>\<open>World::Region::SIZE\<close> and \<^verbatim>\<open>World::Chunk::SIZE\<close> are declared in headers
  outside this source file; they are parameters here, together with the byte order of
  the host, on which \<^verbatim>\<open>htonl\<close> depends.
\<close>

record config =
  Region_SIZE :: nat
  Chunk_SIZE :: nat
  host_order :: byte_order

definition DIM :: "config \<Rightarrow> nat" where
  "DIM K = Region_SIZE K * Chunk_SIZE K"

text \<open>
  Modelled from the spec: \<^verbatim>\<open>World::Chunk\<close> (World/Chunk.hpp is not among the sources).
  A chunk handle exposes \<^verbatim>\<open>getTopLayer()\<close>, a square array of colors, one per block
  column; \<open>getTopLayer chunk x z\<close> stands for
  \<^verbatim>\<open>chunk->getTopLayer().blocks[x][z].getColor()\<close>, read only for \<open>x\<close>, \<open>z\<close>
  below \<^verbatim>\<open>World::Chunk::SIZE\<close>.
\<close>

datatype chunk = Chunk (getTopLayer: "nat \<Rightarrow> nat \<Rightarrow> u32")

subsection \<open>htonl\<close>

text \<open>The byte of a 32-bit value at byte index \<open>n\<close>, index 0 the least significant.\<close>

definition byte_of :: "u32 \<Rightarrow> nat \<Rightarrow> u8" where
  "byte_of w n = ucast (drop_bit (8 * n) w)"

definition bswap32 :: "u32 \<Rightarrow> u32" where
  "bswap32 w =
     push_bit 24 (take_bit 8 w) OR push_bit 16 (take_bit 8 (drop_bit 8 w))
       OR push_bit 8 (take_bit 8 (drop_bit 16 w)) OR drop_bit 24 w"

definition htonl :: "byte_order \<Rightarrow> u32 \<Rightarrow> u32" where
  "htonl host w = (case host of BigEndian \<Rightarrow> w | LittleEndian \<Rightarrow> bswap32 w)"

text \<open>The four bytes of a 32-bit object as they lie in memory on the host.\<close>

definition memory_bytes :: "byte_order \<Rightarrow> u32 \<Rightarrow> u8 list" where
  "memory_bytes host w =
     (case host of
        LittleEndian \<Rightarrow> [byte_of w 0, byte_of w 1, byte_of w 2, byte_of w 3]
      | BigEndian \<Rightarrow> [byte_of w 3, byte_of w 2, byte_of w 1, byte_of w 0])"

text \<open>Network byte order: most significant byte first.\<close>

definition network_bytes :: "u32 \<Rightarrow> u8 list" where
  "network_bytes w = [byte_of w 3, byte_of w 2, byte_of w 1, byte_of w 0]"

subsection \<open>The pixel grid and addChunk\<close>

text \<open>
  \<^verbatim>\<open>uint32_t image[DIM][DIM]\<close> is a list of rows. The field \<open>written\<close> is a ghost
  field: the cells stored to so far, in the order of the stores.
\<close>

record grid =
  cells :: "u32 list list"
  written :: "(nat \<times> nat) list"

definition blank :: "config \<Rightarrow> grid" where
  "blank K = \<lparr>cells = replicate (DIM K) (replicate (DIM K) 0), written = []\<rparr>"

text \<open>
  The assignment \<^verbatim>\<open>image[r][c] = v\<close>. The source checks no bounds; a store outside
  the array is undefined behaviour in C++, which is the result \<open>None\<close>.
\<close>

definition store :: "config \<Rightarrow> grid \<Rightarrow> nat \<Rightarrow> nat \<Rightarrow> u32 \<Rightarrow> grid option" where
  "store K img r c v =
     (if r < DIM K \<and> c < DIM K
      then Some \<lparr>cells = (cells img)[r := (cells img ! r)[c := v]],
                 written = written img @ [(r, c)]\<rparr>
      else None)"

text \<open>A counted loop over the index list, threading the state; \<open>None\<close> is absorbing.\<close>

fun for_each :: "'a list \<Rightarrow> ('a \<Rightarrow> 's \<Rightarrow> 's option) \<Rightarrow> 's \<Rightarrow> 's option" where
  "for_each [] body s = Some s"
| "for_each (i # rest) body s =
     (case body i s of None \<Rightarrow> None | Some s' \<Rightarrow> for_each rest body s')"

definition addChunk :: "config \<Rightarrow> grid \<Rightarrow> nat \<Rightarrow> nat \<Rightarrow> chunk \<Rightarrow> grid option" where
  "addChunk K img0 X Z chunk =
     (let layer = getTopLayer chunk in
      for_each [0..<Chunk_SIZE K] (\<lambda>x.
        for_each [0..<Chunk_SIZE K] (\<lambda>z img.
          store K img (Z * Chunk_SIZE K + z) (X * Chunk_SIZE K + x)
            (htonl (host_order K) (layer x z))))
        img0)"

subsection \<open>The region visitor\<close>

text \<open>
  Modelled from the spec: \<^verbatim>\<open>World::Region::visitChunks(path, callback)\<close>
  (World/Region.cpp is not among the sources) opens and parses a region file and invokes
  \<^verbatim>\<open>callback(localX, localZ, chunkHandle)\<close> once per present chunk, in unspecified
  order; failures during parsing surface as an exception. One call is described by the
  callbacks it delivers, in order, and by the message of the exception it ends with, if
  any. Its iteration contract is that the slots delivered are below
  \<^verbatim>\<open>World::Region::SIZE\<close> and pairwise distinct.
\<close>

record visit =
  delivered :: "(nat \<times> nat \<times> chunk) list"
  thrown :: "string option"

definition slot :: "nat \<times> nat \<times> chunk \<Rightarrow> nat \<times> nat" where
  "slot d = (fst d, fst (snd d))"

definition slots_in_range :: "config \<Rightarrow> (nat \<times> nat \<times> chunk) list \<Rightarrow> bool" where
  "slots_in_range K ds = list_all (\<lambda>d. fst d < Region_SIZE K \<and> fst (snd d) < Region_SIZE K) ds"

definition visitor_contract :: "config \<Rightarrow> (nat \<times> nat \<times> chunk) list \<Rightarrow> bool" where
  "visitor_contract K ds = (slots_in_range K ds \<and> distinct (map slot ds))"

text \<open>
  Lines 121 and 122 of \<^verbatim>\<open>doRegion\<close>: the zero-initialised image and the visit with the
  callback that calls \<^verbatim>\<open>addChunk\<close>; \<open>visit_all\<close> is the callbacks of one visit applied
  in the order delivered. \<open>Inl\<close> carries the message of an exception.
\<close>

definition visit_all :: "config \<Rightarrow> (nat \<times> nat \<times> chunk) list \<Rightarrow> grid \<Rightarrow> grid option" where
  "visit_all K ds img0 = for_each ds (\<lambda>(X, Z, chunk) img. addChunk K img X Z chunk) img0"

definition compose :: "config \<Rightarrow> visit \<Rightarrow> (string + grid) option" where
  "compose K v =
     (case visit_all K (delivered v) (blank K) of
        None \<Rightarrow> None
      | Some img \<Rightarrow>
          Some (case thrown v of Some what \<Rightarrow> Inl what | None \<Rightarrow> Inr img))"

subsection \<open>Files, time stamps and the environment\<close>

record timespec =
  tv_sec :: int
  tv_nsec :: int

text \<open>Of \<^verbatim>\<open>struct stat\<close> the source reads \<^verbatim>\<open>st_mtim\<close> only.\<close>

record struct_stat =
  st_mtim :: timespec

text \<open>
  What a file holds: the complete encoding of a pixel grid, whatever an encoding that did
  not finish has left, or any other bytes.
\<close>

datatype contents = PNG "u32 list list" | Incomplete | Bytes string

record inode =
  content :: contents
  mtim :: timespec
  atim :: timespec

type_synonym filesystem = "string \<Rightarrow> inode option"

text \<open>
  The environment of a run: what the region visitor does on an input path, which of the
  system and library calls fail (those whose result the source tests, and the final
  \<^verbatim>\<open>fclose\<close> and the \<^verbatim>\<open>unlink\<close> whose results it ignores), the modification and the
  access time a file gets when it is written, and the listing \<^verbatim>\<open>opendir\<close> and
  \<^verbatim>\<open>readdir\<close> give for a directory.
\<close>

record env =
  visitChunks :: "string \<Rightarrow> visit"
  fopen_fails :: "string \<Rightarrow> bool"
  png_create_write_struct_fails :: "string \<Rightarrow> bool"
  png_create_info_struct_fails :: "string \<Rightarrow> bool"
  png_write_fails :: "string \<Rightarrow> bool"
  fclose_fails :: "string \<Rightarrow> bool"
  utimensat_fails :: "string \<Rightarrow> bool"
  rename_fails :: "string \<Rightarrow> string \<Rightarrow> bool"
  unlink_fails :: "string \<Rightarrow> bool"
  clock :: "string \<Rightarrow> timespec"
  access_clock :: "string \<Rightarrow> timespec"
  opendir :: "string \<Rightarrow> string list option"

text \<open>The lines the program prints to the error stream (without the errno text).\<close>

datatype message =
    Usage
  | UnableToReadInputDirectory
  | UnableToStat string
  | UpToDate string
  | Generating string string
  | WarningUtime string
  | UnableToSave string
  | FailedToGenerate string string

definition stat :: "filesystem \<Rightarrow> string \<Rightarrow> struct_stat option" where
  "stat fs path = (case fs path of None \<Rightarrow> None | Some f \<Rightarrow> Some \<lparr>st_mtim = mtim f\<rparr>)"

definition utimensat :: "filesystem \<Rightarrow> string \<Rightarrow> timespec \<Rightarrow> timespec \<Rightarrow> filesystem" where
  "utimensat fs path t0 t1 =
     (case fs path of None \<Rightarrow> fs | Some f \<Rightarrow> fs(path \<mapsto> f\<lparr>atim := t0, mtim := t1\<rparr>))"

definition rename :: "filesystem \<Rightarrow> string \<Rightarrow> string \<Rightarrow> filesystem" where
  "rename fs old new =
     (case fs old of None \<Rightarrow> fs | Some f \<Rightarrow> (fs(old := None))(new \<mapsto> f))"

text \<open>The source ignores the result of \<^verbatim>\<open>unlink\<close>: where it fails, the file stays.\<close>

definition unlink :: "env \<Rightarrow> filesystem \<Rightarrow> string \<Rightarrow> filesystem" where
  "unlink E fs path = (if unlink_fails E path then fs else fs(path := None))"

subsection \<open>writePNG\<close>

text \<open>
  \<^verbatim>\<open>fopen(filename, "wb")\<close> creates or truncates the file; every later failure
  that the source tests throws with the file in place. \<open>Inl\<close> carries the message of the
  exception (for the \<^verbatim>\<open>std::system_error\<close> of line 67 without the text of \<^verbatim>\<open>errno\<close> that
  follows it). The result of the final \<^verbatim>\<open>std::fclose(f)\<close> of line 97 is ignored: when it
  fails, the last buffer not written, \<^verbatim>\<open>writePNG\<close> returns normally and the file is
  left incomplete.
\<close>

definition writePNG ::
  "env \<Rightarrow> filesystem \<Rightarrow> string \<Rightarrow> u32 list list \<Rightarrow> (string + unit) \<times> filesystem" where
  "writePNG E fs filename data =
     (if fopen_fails E filename then (Inl ''unable to open output file'', fs)
      else
        let opened = fs(filename \<mapsto>
              \<lparr>content = Incomplete, mtim = clock E filename, atim = access_clock E filename\<rparr>)
        in
          if png_create_write_struct_fails E filename
          then (Inl ''unable to create PNG write struct'', opened)
          else if png_create_info_struct_fails E filename
          then (Inl ''unable to create PNG info struct'', opened)
          else if png_write_fails E filename
          then (Inl ''unable to write PNG file'', opened)
          else if fclose_fails E filename
          then (Inr (), opened)
          else (Inr (), fs(filename \<mapsto>
              \<lparr>content = PNG data, mtim = clock E filename,
               atim = access_clock E filename\<rparr>)))"

subsection \<open>doRegion\<close>

text \<open>The test of lines 108 to 110, on the result of the second \<^verbatim>\<open>stat\<close>.\<close>

definition up_to_date :: "struct_stat \<Rightarrow> struct_stat option \<Rightarrow> bool" where
  "up_to_date instat out =
     (case out of
        None \<Rightarrow> False
      | Some outstat \<Rightarrow>
          tv_sec (st_mtim instat) < tv_sec (st_mtim outstat)
          \<or> (tv_sec (st_mtim instat) = tv_sec (st_mtim outstat)
              \<and> tv_nsec (st_mtim instat) \<le> tv_nsec (st_mtim outstat)))"

text \<open>
  The body of the \<^verbatim>\<open>try\<close> block. \<open>Inl\<close> is an exception leaving the block, with the
  file system as it is then; \<open>Inr\<close> is normal completion with the lines printed inside.
  \<open>None\<close> is undefined behaviour (a store outside the image).
\<close>

definition try_block ::
  "config \<Rightarrow> env \<Rightarrow> filesystem \<Rightarrow> struct_stat \<Rightarrow> string \<Rightarrow> string \<Rightarrow> string
     \<Rightarrow> ((string + message list) \<times> filesystem) option" where
  "try_block K E fs instat input output tmpfile =
     (case compose K (visitChunks E input) of
        None \<Rightarrow> None
      | Some (Inl what) \<Rightarrow> Some (Inl what, fs)
      | Some (Inr img) \<Rightarrow>
          (case writePNG E fs tmpfile (cells img) of
             (Inl what, fs1) \<Rightarrow> Some (Inl what, fs1)
           | (Inr _, fs1) \<Rightarrow>
               let (warning, fs2) =
                     (if utimensat_fails E tmpfile then ([WarningUtime tmpfile], fs1)
                      else ([], utimensat fs1 tmpfile (st_mtim instat) (st_mtim instat)))
               in
                 if rename_fails E tmpfile output
                 then Some (Inr (warning @ [UnableToSave output]), unlink E fs2 tmpfile)
                 else Some (Inr warning, rename fs2 tmpfile output)))"

text \<open>
  Lines 116 to 138: the line announcing the generation, the temporary name, the
  \<^verbatim>\<open>try\<close> block and its handler.
\<close>

definition regenerate ::
  "config \<Rightarrow> env \<Rightarrow> filesystem \<Rightarrow> struct_stat \<Rightarrow> string \<Rightarrow> string
     \<Rightarrow> (message list \<times> filesystem) option" where
  "regenerate K E fs instat input output =
     (let tmpfile = output @ ''.tmp'' in
        (case try_block K E fs instat input output tmpfile of
           None \<Rightarrow> None
         | Some (Inl what, fs') \<Rightarrow>
             Some ([Generating output input, FailedToGenerate output what],
                   unlink E fs' tmpfile)
         | Some (Inr printed, fs') \<Rightarrow>
             Some (Generating output input # printed, fs')))"

text \<open>The result is the lines printed and the file system on return.\<close>

definition doRegion ::
  "config \<Rightarrow> env \<Rightarrow> filesystem \<Rightarrow> string \<Rightarrow> string \<Rightarrow> (message list \<times> filesystem) option" where
  "doRegion K E fs input output =
     (case stat fs input of
        None \<Rightarrow> Some ([UnableToStat input], fs)
      | Some instat \<Rightarrow>
          if up_to_date instat (stat fs output) then Some ([UpToDate output], fs)
          else regenerate K E fs instat input output)"

subsection \<open>Scanning and formatting region file names\<close>

definition isspace :: "char \<Rightarrow> bool" where
  "isspace c = (c \<in> set [CHR '' '', CHR 0x09, CHR 0x0A, CHR 0x0B, CHR 0x0C, CHR 0x0D])"

definition digit_of :: "char \<Rightarrow> nat option" where
  "digit_of c =
     (let n = (of_char c :: nat) in
        if 48 \<le> n \<and> n \<le> 57 then Some (n - 48)
        else if 97 \<le> n \<and> n \<le> 102 then Some (n - 87)
        else if 65 \<le> n \<and> n \<le> 70 then Some (n - 55)
        else None)"

definition is_digit :: "nat \<Rightarrow> char \<Rightarrow> bool" where
  "is_digit base c = (case digit_of c of None \<Rightarrow> False | Some d \<Rightarrow> d < base)"

fun scan_digits :: "nat \<Rightarrow> nat \<Rightarrow> string \<Rightarrow> nat \<times> string" where
  "scan_digits base acc [] = (acc, [])"
| "scan_digits base acc (c # cs) =
     (if is_digit base c then scan_digits base (acc * base + the (digit_of c)) cs
      else (acc, c # cs))"

text \<open>
  The value a conversion stores into an \<^verbatim>\<open>int\<close>: as the C library does, the value
  is clamped to the range of \<^verbatim>\<open>long\<close> (64 bits) and then cut to 32 bits. (For a
  value outside \<^verbatim>\<open>int\<close> the C standard leaves the behaviour open.)
\<close>

definition to_int :: "int \<Rightarrow> int" where
  "to_int v = sint (word_of_int (max (- (2 ^ 63)) (min (2 ^ 63 - 1) v)) :: 32 word)"

text \<open>
  The conversion \<^verbatim>\<open>%i\<close> of \<^verbatim>\<open>sscanf\<close>: white space is skipped, then an optional
  sign, then a number whose base is read off its prefix, \<^verbatim>\<open>0x\<close> for 16, \<^verbatim>\<open>0\<close> for
  8, else 10. The result is the value and the rest of the input, or \<open>None\<close> for a
  matching failure.
\<close>

definition scan_i :: "string \<Rightarrow> (int \<times> string) option" where
  "scan_i s =
     (let s1 = dropWhile isspace s;
          (neg, s2) =
            (case s1 of
               [] \<Rightarrow> (False, s1)
             | c # cs \<Rightarrow>
                 if c = CHR ''-'' then (True, cs)
                 else if c = CHR ''+'' then (False, cs)
                 else (False, s1));
          number =
            (case s2 of
               [] \<Rightarrow> None
             | c0 # cs \<Rightarrow>
                 if c0 = CHR ''0'' then
                   (case cs of
                      [] \<Rightarrow> Some (0, [])
                    | x # ds \<Rightarrow>
                        if x = CHR ''x'' \<or> x = CHR ''X'' then
                          (case ds of
                             [] \<Rightarrow> None
                           | d # _ \<Rightarrow>
                               if is_digit 16 d then Some (scan_digits 16 0 ds) else None)
                        else Some (scan_digits 8 0 cs))
                 else if is_digit 10 c0 then Some (scan_digits 10 0 s2)
                 else None)
      in
        (case number of
           None \<Rightarrow> None
         | Some (m, rest) \<Rightarrow> Some (to_int (if neg then - int m else int m), rest)))"

text \<open>An ordinary character of the format matches itself.\<close>

definition match_char :: "char \<Rightarrow> string \<Rightarrow> string option" where
  "match_char c s = (case s of [] \<Rightarrow> None | d # rest \<Rightarrow> if d = c then Some rest else None)"

text \<open>
  \<^verbatim>\<open>std::sscanf(d_name, "r.%i.%i.mca", &x, &z) == 2\<close>: the result is \<open>Some (x, z)\<close>
  when the call returns 2. The return value counts the conversions assigned, so what
  follows the second number in the input is not looked at.
\<close>

definition sscanf_region :: "string \<Rightarrow> (int \<times> int) option" where
  "sscanf_region d_name =
     (case match_char CHR ''r'' d_name of
        None \<Rightarrow> None
      | Some s1 \<Rightarrow>
     (case match_char CHR ''.'' s1 of
        None \<Rightarrow> None
      | Some s2 \<Rightarrow>
     (case scan_i s2 of
        None \<Rightarrow> None
      | Some (x, s3) \<Rightarrow>
     (case match_char CHR ''.'' s3 of
        None \<Rightarrow> None
      | Some s4 \<Rightarrow>
     (case scan_i s4 of
        None \<Rightarrow> None
      | Some (z, s5) \<Rightarrow> Some (x, z))))))"

definition digit_char :: "nat \<Rightarrow> char" where
  "digit_char d = ''0123456789'' ! d"

fun decimal :: "nat \<Rightarrow> string" where
  "decimal n = (if n < 10 then [digit_char n] else decimal (n div 10) @ [digit_char (n mod 10)])"

declare decimal.simps [simp del]

text \<open>The conversion \<^verbatim>\<open>%i\<close> of \<^verbatim>\<open>snprintf\<close>.\<close>

definition format_i :: "int \<Rightarrow> string" where
  "format_i i = (if i < 0 then CHR ''-'' # decimal (nat (- i)) else decimal (nat i))"

text \<open>The text the format \<^verbatim>\<open>"r.%i.%i.mca"\<close> gives for two numbers.\<close>

definition format_region :: "int \<Rightarrow> int \<Rightarrow> string" where
  "format_region x z = ''r.'' @ format_i x @ ''.'' @ format_i z @ ''.mca''"

definition NUL :: char where
  "NUL = CHR 0x00"

text \<open>
  \<^verbatim>\<open>std::snprintf(buf, l, ...)\<close> writes at most \<open>l - 1\<close> characters of the text and
  a terminating zero byte; the result is the bytes written to \<open>buf\<close>.
\<close>

definition snprintf :: "nat \<Rightarrow> string \<Rightarrow> string" where
  "snprintf l text = take (l - 1) text @ [NUL]"

text \<open>
  Lines 163 to 168 of \<^verbatim>\<open>main\<close>: \<open>Some (x, z)\<close> when the entry goes on to be processed.
  \<open>d_name\<close> is a C string, without a zero byte inside. \<^verbatim>\<open>memcmp\<close> over \<open>l\<close> bytes is
  the equality of the bytes written to \<open>buf\<close> with the name and its terminator: where
  fewer than \<open>l\<close> bytes were written, the zero byte written last already differs from
  the byte of the name at its index.
\<close>

definition region_filename :: "string \<Rightarrow> (int \<times> int) option" where
  "region_filename d_name =
     (case sscanf_region d_name of
        None \<Rightarrow> None
      | Some (x, z) \<Rightarrow>
          let l = length d_name + 1;
              buf = snprintf l (format_region x z)
          in if buf \<noteq> d_name @ [NUL] then None else Some (x, z))"

text \<open>
  The rule in the words of the specification, for comparison: the name is valid when the
  scan yields two integers and formatting them again gives the name itself.
\<close>

definition exact_region_filename :: "string \<Rightarrow> (int \<times> int) option" where
  "exact_region_filename d_name =
     (case sscanf_region d_name of
        None \<Rightarrow> None
      | Some (x, z) \<Rightarrow> if format_region x z = d_name then Some (x, z) else None)"

subsection \<open>main\<close>

definition INT_MAX :: int where "INT_MAX = 2147483647"
definition INT_MIN :: int where "INT_MIN = - 2147483648"

record bounds =
  minX :: int
  maxX :: int
  minZ :: int
  maxZ :: int

definition track :: "bounds \<Rightarrow> int \<Rightarrow> int \<Rightarrow> bounds" where
  "track b x z =
     \<lparr>minX = (if x < minX b then x else minX b),
      maxX = (if x > maxX b then x else maxX b),
      minZ = (if z < minZ b then z else minZ b),
      maxZ = (if z > maxZ b then z else maxZ b)\<rparr>"

definition input_path :: "string \<Rightarrow> string \<Rightarrow> string" where
  "input_path inputdir name = inputdir @ ''/'' @ name"

definition output_path :: "string \<Rightarrow> string \<Rightarrow> string" where
  "output_path outputdir name = outputdir @ ''/'' @ take (length name - 3) name @ ''png''"

text \<open>
  The \<^verbatim>\<open>readdir\<close> loop over the entries of the directory, in the order they are
  read. The state is the bounding box, the lines printed so far and the file system.
\<close>

fun readdir_loop ::
  "config \<Rightarrow> env \<Rightarrow> string \<Rightarrow> string \<Rightarrow> string list
     \<Rightarrow> bounds \<times> message list \<times> filesystem \<Rightarrow> (bounds \<times> message list \<times> filesystem) option" where
  "readdir_loop K E inputdir outputdir [] state = Some state"
| "readdir_loop K E inputdir outputdir (d_name # rest) (b, printed, fs) =
     (case region_filename d_name of
        None \<Rightarrow> readdir_loop K E inputdir outputdir rest (b, printed, fs)
      | Some (x, z) \<Rightarrow>
          (case doRegion K E fs (input_path inputdir d_name) (output_path outputdir d_name) of
             None \<Rightarrow> None
           | Some (lines, fs') \<Rightarrow>
               readdir_loop K E inputdir outputdir rest (track b x z, printed @ lines, fs')))"

text \<open>
  \<^verbatim>\<open>main\<close>: \<open>argv\<close> holds the \<open>argc\<close> arguments, the program name first. The result is
  the exit code, the lines printed and the file system at exit.
\<close>

definition main ::
  "config \<Rightarrow> env \<Rightarrow> filesystem \<Rightarrow> string list \<Rightarrow> (int \<times> message list \<times> filesystem) option" where
  "main K E fs argv =
     (if length argv < 3 then Some (1, [Usage], fs)
      else
        let inputdir = argv ! 1 @ ''/region'';
            outputdir = argv ! 2
        in
          (case opendir E inputdir of
             None \<Rightarrow> Some (1, [UnableToReadInputDirectory], fs)
           | Some entries \<Rightarrow>
               (case readdir_loop K E inputdir outputdir entries
                       (\<lparr>minX = INT_MAX, maxX = INT_MIN, minZ = INT_MAX, maxZ = INT_MIN\<rparr>, [], fs) of
                  None \<Rightarrow> None
                | Some (b, printed, fs') \<Rightarrow> Some (0, printed, fs'))))"

subsection \<open>Notions used in the statements\<close>

text \<open>The image has its declared dimensions: \<open>DIM\<close> rows of \<open>DIM\<close> cells.\<close>

definition well_formed :: "config \<Rightarrow> grid \<Rightarrow> bool" where
  "well_formed K img =
     (length (cells img) = DIM K \<and> list_all (\<lambda>row. length row = DIM K) (cells img))"

definition pixel :: "grid \<Rightarrow> nat \<Rightarrow> nat \<Rightarrow> u32" where
  "pixel img r c = cells img ! r ! c"

text \<open>
  A sequence of stores \<open>(row, column, value)\<close> run in order, and the sequences of
  stores that one call of \<^verbatim>\<open>addChunk\<close> and one whole visit perform.
\<close>

definition run_stores :: "config \<Rightarrow> (nat \<times> nat \<times> u32) list \<Rightarrow> grid \<Rightarrow> grid option" where
  "run_stores K ops img = for_each ops (\<lambda>(r, c, v) g. store K g r c v) img"

definition target :: "nat \<times> nat \<times> u32 \<Rightarrow> nat \<times> nat" where
  "target op = (fst op, fst (snd op))"

definition chunk_stores :: "config \<Rightarrow> nat \<Rightarrow> nat \<Rightarrow> chunk \<Rightarrow> (nat \<times> nat \<times> u32) list" where
  "chunk_stores K X Z chunk =
     map (\<lambda>(x, z). (Z * Chunk_SIZE K + z, X * Chunk_SIZE K + x,
                     htonl (host_order K) (getTopLayer chunk x z)))
       (List.product [0..<Chunk_SIZE K] [0..<Chunk_SIZE K])"

definition all_stores :: "config \<Rightarrow> (nat \<times> nat \<times> chunk) list \<Rightarrow> (nat \<times> nat \<times> u32) list" where
  "all_stores K ds = concat (map (\<lambda>(X, Z, chunk). chunk_stores K X Z chunk) ds)"

definition ops_in_range :: "config \<Rightarrow> (nat \<times> nat \<times> u32) list \<Rightarrow> bool" where
  "ops_in_range K ops = list_all (\<lambda>op. fst op < DIM K \<and> fst (snd op) < DIM K) ops"

definition consistent :: "(nat \<times> nat \<times> u32) list \<Rightarrow> bool" where
  "consistent ops = (\<forall>a \<in> set ops. \<forall>b \<in> set ops. target a = target b \<longrightarrow> a = b)"

text \<open>The time stamp of a file as the pair compared by the staleness test.\<close>

definition stamp :: "timespec \<Rightarrow> int \<times> int" where
  "stamp t = (tv_sec t, tv_nsec t)"

text \<open>A small configuration, an environment in which no call fails, and a time stamp.\<close>

definition small :: config where
  "small = \<lparr>Region_SIZE = 2, Chunk_SIZE = 2, host_order = LittleEndian\<rparr>"

definition at_time :: "int \<Rightarrow> int \<Rightarrow> timespec" where
  "at_time s n = \<lparr>tv_sec = s, tv_nsec = n\<rparr>"

definition quiet :: env where
  "quiet =
     \<lparr>visitChunks = (\<lambda>path. \<lparr>delivered = [(1, 0, Chunk (\<lambda>x z. 0x11223344))], thrown = None\<rparr>),
      fopen_fails = (\<lambda>path. False),
      png_create_write_struct_fails = (\<lambda>path. False),
      png_create_info_struct_fails = (\<lambda>path. False),
      png_write_fails = (\<lambda>path. False),
      fclose_fails = (\<lambda>path. False),
      utimensat_fails = (\<lambda>path. False),
      rename_fails = (\<lambda>old new. False),
      unlink_fails = (\<lambda>path. False),
      clock = (\<lambda>path. at_time 500 0),
      access_clock = (\<lambda>path. at_time 499 0),
      opendir = (\<lambda>path. None)\<rparr>"

text \<open>The cells composed from the one chunk that the visitor of \<open>quiet\<close> delivers.\<close>

definition tile :: "u32 list list" where
  "tile = [[0, 0, 0x44332211, 0x44332211], [0, 0, 0x44332211, 0x44332211],
           [0, 0, 0, 0], [0, 0, 0, 0]]"

definition region_file :: "int \<Rightarrow> int \<Rightarrow> inode" where
  "region_file s n = \<lparr>content = Bytes ''region'', mtim = at_time s n, atim = at_time s n\<rparr>"

text \<open>
  A world of two region files, and an environment in which the visitor fails on the
  first of them and no other call fails.
\<close>

definition world :: filesystem where
  "world = Map.empty(''world/region/r.0.0.mca'' \<mapsto> region_file 10 0,
                     ''world/region/r.1.0.mca'' \<mapsto> region_file 20 0)"

definition batch :: env where
  "batch = quiet
     \<lparr>visitChunks := (\<lambda>path.
        if path = ''world/region/r.0.0.mca''
        then \<lparr>delivered = [], thrown = Some ''truncated region file''\<rparr>
        else visitChunks quiet path),
      opendir := (\<lambda>path.
        if path = ''world/region'' then Some [''.'', ''..'', ''r.0.0.mca'', ''r.1.0.mca'']
        else None)\<rparr>"

text \<open>
  The output of a region is fresh when \<^verbatim>\<open>doRegion\<close> would take it as up to date; a
  line is calm when it reports no error and no warning.
\<close>

definition fresh :: "filesystem \<Rightarrow> string \<Rightarrow> string \<Rightarrow> bool" where
  "fresh fs input output =
     (case stat fs input of None \<Rightarrow> False | Some instat \<Rightarrow> up_to_date instat (stat fs output))"

fun calm :: "message \<Rightarrow> bool" where
  "calm (UpToDate output) = True"
| "calm (Generating output input) = True"
| "calm other = False"

definition accepted :: "string \<Rightarrow> bool" where
  "accepted d_name = (region_filename d_name \<noteq> None)"

text \<open>The same directory with a visitor that succeeds on every region.\<close>

definition steady :: env where
  "steady = batch\<lparr>visitChunks := visitChunks quiet\<rparr>"

text \<open>A directory whose only entry is the name \<^verbatim>\<open>r.1.2\<close>, and that file.\<close>

definition stray :: env where
  "stray = quiet\<lparr>opendir := (\<lambda>path. if path = ''world/region'' then Some [''r.1.2''] else None)\<rparr>"

definition stray_world :: filesystem where
  "stray_world = Map.empty(''world/region/r.1.2'' \<mapsto> region_file 10 0)"

text \<open>
  The directory of \<open>steady\<close> in an environment where the final \<^verbatim>\<open>fclose\<close> fails for the
  temporary file of the first region and no other call fails.
\<close>

definition unflushed :: env where
  "unflushed = steady\<lparr>fclose_fails := (\<lambda>path. path = ''tiles/r.0.0.png.tmp'')\<rparr>"

text \<open>
  The command line in the words of the specification, for comparison:
  \<^verbatim>\<open><program> <data-directory> <output-directory>\<close>; any other number of arguments is a
  wrong argument count.
\<close>

definition wrong_argument_count :: "string list \<Rightarrow> bool" where
  "wrong_argument_count argv = (length argv \<noteq> 3)"

section \<open>Properties of the pixel grid\<close>

lemma htonl_network_order: "memory_bytes h (htonl h w) = network_bytes w"
  unfolding byte_of_def bswap32_def memory_bytes_def network_bytes_def htonl_def
  apply (cases h; simp)
  apply (intro conjI; rule bit_word_eqI; auto simp add: bit_simps)
  done

lemma for_each_append:
  "for_each (xs @ ys) body s = (case for_each xs body s of None \<Rightarrow> None | Some s' \<Rightarrow> for_each ys body s')"
  by (induction xs arbitrary: s) (auto split: option.splits)

lemma for_each_map: "for_each (map f xs) body s = for_each xs (\<lambda>x. body (f x)) s"
  by (induction xs arbitrary: s) (auto split: option.splits)

lemma for_each_product:
  "for_each xs (\<lambda>x. for_each ys (\<lambda>y. body x y)) s = for_each (List.product xs ys) (\<lambda>(x, y). body x y) s"
  by (induction xs arbitrary: s) (auto simp: for_each_append for_each_map split: option.splits)

lemma for_each_concat:
  "for_each xs (\<lambda>x. for_each (f x) body) s = for_each (concat (map f xs)) body s"
  by (induction xs arbitrary: s) (auto simp: for_each_append split: option.splits)

lemma addChunk_stores: "addChunk K img X Z chunk = run_stores K (chunk_stores K X Z chunk) img"
  by (simp add: addChunk_def run_stores_def chunk_stores_def for_each_product for_each_map case_prod_unfold)

lemma store_Some:
  assumes "well_formed K img" "r < DIM K" "c < DIM K"
  shows "\<exists>g. store K img r c v = Some g \<and> well_formed K g \<and> written g = written img @ [(r, c)]
     \<and> (\<forall>r' c'. r' < DIM K \<longrightarrow> c' < DIM K \<longrightarrow> pixel g r' c' = (if r' = r \<and> c' = c then v else pixel img r' c'))"
  using assms
  by (auto simp: store_def well_formed_def pixel_def list_all_iff nth_list_update dest: set_update_subset_insert[THEN subsetD])

lemma run_stores_Nil [simp]: "run_stores K [] img = Some img"
  by (simp add: run_stores_def)

lemma run_stores_Cons:
  "run_stores K ((r, c, v) # ops) img =
     (case store K img r c v of None \<Rightarrow> None | Some g \<Rightarrow> run_stores K ops g)"
  unfolding run_stores_def by (simp split: option.splits)

lemma run_stores_frame:
  assumes "well_formed K img" "ops_in_range K ops"
  shows "\<exists>g. run_stores K ops img = Some g \<and> well_formed K g
     \<and> written g = written img @ map target ops
     \<and> (\<forall>r c. r < DIM K \<longrightarrow> c < DIM K \<longrightarrow> (r, c) \<notin> target ` set ops \<longrightarrow> pixel g r c = pixel img r c)"
  using assms
proof (induction ops arbitrary: img)
  case Nil
  then show ?case by simp
next
  case (Cons op ops)
  obtain r c v where op: "op = (r, c, v)" by (cases op) auto
  from Cons.prems op have rc: "r < DIM K" "c < DIM K" and rest: "ops_in_range K ops"
    by (simp_all add: ops_in_range_def)
  from store_Some [OF Cons.prems(1) rc, of v] obtain g1 where
    g1: "store K img r c v = Some g1" "well_formed K g1" "written g1 = written img @ [(r, c)]"
    and px1: "\<And>r' c'. r' < DIM K \<Longrightarrow> c' < DIM K \<Longrightarrow>
        pixel g1 r' c' = (if r' = r \<and> c' = c then v else pixel img r' c')"
    by blast
  from Cons.IH [OF g1(2) rest] obtain g where
    g: "run_stores K ops g1 = Some g" "well_formed K g" "written g = written g1 @ map target ops"
    and px: "\<And>r' c'. r' < DIM K \<Longrightarrow> c' < DIM K \<Longrightarrow> (r', c') \<notin> target ` set ops \<Longrightarrow>
        pixel g r' c' = pixel g1 r' c'"
    by blast
  have "run_stores K (op # ops) img = Some g"
    by (simp add: op run_stores_Cons g1 g)
  moreover have "written g = written img @ map target (op # ops)"
    by (simp add: g g1 op target_def)
  moreover have "\<forall>r' c'. r' < DIM K \<longrightarrow> c' < DIM K \<longrightarrow> (r', c') \<notin> target ` set (op # ops)
      \<longrightarrow> pixel g r' c' = pixel img r' c'"
    using px px1 by (auto simp: op target_def)
  ultimately show ?case using g(2) by blast
qed

lemma run_stores_hit:
  assumes "well_formed K img" "ops_in_range K ops" "consistent ops"
    and "run_stores K ops img = Some g" "(r, c, v) \<in> set ops"
  shows "pixel g r c = v"
  using assms
proof (induction ops arbitrary: img)
  case Nil
  then show ?case by simp
next
  case (Cons op ops)
  obtain r0 c0 v0 where op: "op = (r0, c0, v0)" by (cases op) auto
  from Cons.prems op have rc: "r0 < DIM K" "c0 < DIM K" and rest: "ops_in_range K ops"
    by (simp_all add: ops_in_range_def)
  from store_Some [OF Cons.prems(1) rc, of v0] obtain g1 where
    g1: "store K img r0 c0 v0 = Some g1" "well_formed K g1"
    and px1: "\<And>r' c'. r' < DIM K \<Longrightarrow> c' < DIM K \<Longrightarrow>
        pixel g1 r' c' = (if r' = r0 \<and> c' = c0 then v0 else pixel img r' c')"
    by blast
  have run: "run_stores K ops g1 = Some g"
    using Cons.prems(4) by (simp add: op run_stores_Cons g1)
  have cons: "consistent ops"
    using Cons.prems(3) by (simp add: consistent_def)
  show ?case
  proof (cases "(r, c, v) \<in> set ops")
    case True
    from Cons.IH [OF g1(2) rest cons run True] show ?thesis .
  next
    case False
    with Cons.prems(5) op have eq: "r = r0" "c = c0" "v = v0" by auto
    have "(r0, c0) \<notin> target ` set ops"
    proof
      assume "(r0, c0) \<in> target ` set ops"
      then obtain b where b: "b \<in> set ops" "target b = (r0, c0)" by auto
      with Cons.prems(3) have "op = b"
        by (auto simp: consistent_def op target_def)
      with b False eq op show False by simp
    qed
    with run_stores_frame [OF g1(2) rest] run rc have "pixel g r0 c0 = pixel g1 r0 c0"
      by auto
    with px1 [OF rc] eq show ?thesis by simp
  qed
qed

lemma visit_all_stores: "visit_all K ds img = run_stores K (all_stores K ds) img"
proof -
  have "visit_all K ds img
      = for_each ds (\<lambda>d. for_each (case d of (X, Z, chunk) \<Rightarrow> chunk_stores K X Z chunk)
          (\<lambda>(r, c, v) g. store K g r c v)) img"
    by (simp add: visit_all_def addChunk_stores run_stores_def case_prod_unfold)
  then show ?thesis
    by (simp add: for_each_concat all_stores_def run_stores_def)
qed

lemma block_index_less:
  fixes A :: nat
  assumes "A < N" "a < S"
  shows "A * S + a < N * S"
proof -
  have "A * S + a < A * S + S" using assms by simp
  also have "\<dots> = Suc A * S" by simp
  also have "\<dots> \<le> N * S" using assms(1) by (intro mult_le_mono1) simp
  finally show ?thesis .
qed

lemma block_index_unique:
  fixes A :: nat
  assumes "A * S + a = B * S + b" "a < S" "b < S"
  shows "A = B \<and> a = b"
proof -
  have "(A * S + a) div S = A"
    using assms(2) by simp
  moreover have "(B * S + b) div S = B"
    using assms(3) by simp
  ultimately have "A = B" using assms(1) by simp
  with assms(1) show ?thesis by simp
qed

lemma set_chunk_stores:
  "set (chunk_stores K X Z chunk) =
     {(Z * Chunk_SIZE K + z, X * Chunk_SIZE K + x, htonl (host_order K) (getTopLayer chunk x z)) | x z.
        x < Chunk_SIZE K \<and> z < Chunk_SIZE K}"
  by (auto simp: chunk_stores_def image_iff)

lemma chunk_stores_in_range:
  assumes "X < Region_SIZE K" "Z < Region_SIZE K"
  shows "ops_in_range K (chunk_stores K X Z chunk)"
  using assms
  by (auto simp: ops_in_range_def list_all_iff set_chunk_stores DIM_def intro: block_index_less)

lemma distinct_chunk_targets: "distinct (map target (chunk_stores K X Z chunk))"
proof -
  have "map target (chunk_stores K X Z chunk)
      = map (\<lambda>p. (Z * Chunk_SIZE K + snd p, X * Chunk_SIZE K + fst p))
          (List.product [0..<Chunk_SIZE K] [0..<Chunk_SIZE K])"
    by (simp add: chunk_stores_def target_def case_prod_unfold comp_def)
  moreover have "distinct \<dots>"
    by (auto simp: distinct_map distinct_product inj_on_def)
  ultimately show ?thesis by simp
qed

lemma chunk_targets_disjoint:
  assumes "(X, Z) \<noteq> (X', Z')"
  shows "target ` set (chunk_stores K X Z chunk) \<inter> target ` set (chunk_stores K X' Z' chunk') = {}"
  using assms
  by (auto simp: set_chunk_stores target_def dest: block_index_unique)

lemma set_all_stores:
  "set (all_stores K ds) = (\<Union>d \<in> set ds. set (chunk_stores K (fst d) (fst (snd d)) (snd (snd d))))"
  by (auto simp: all_stores_def case_prod_unfold)

lemma all_stores_in_range:
  assumes "slots_in_range K ds"
  shows "ops_in_range K (all_stores K ds)"
proof -
  have "\<And>op d. d \<in> set ds \<Longrightarrow> op \<in> set (chunk_stores K (fst d) (fst (snd d)) (snd (snd d)))
      \<Longrightarrow> fst op < DIM K \<and> fst (snd op) < DIM K"
  proof -
    fix op d
    assume d: "d \<in> set ds" and op: "op \<in> set (chunk_stores K (fst d) (fst (snd d)) (snd (snd d)))"
    from d assms have "fst d < Region_SIZE K" "fst (snd d) < Region_SIZE K"
      by (auto simp: slots_in_range_def list_all_iff)
    from chunk_stores_in_range [OF this] op show "fst op < DIM K \<and> fst (snd op) < DIM K"
      by (auto simp: ops_in_range_def list_all_iff)
  qed
  then show ?thesis
    by (auto simp: ops_in_range_def list_all_iff set_all_stores)
qed

lemma distinct_all_targets:
  assumes "distinct (map slot ds)"
  shows "distinct (map target (all_stores K ds))"
  using assms
proof (induction ds)
  case Nil
  then show ?case by (simp add: all_stores_def)
next
  case (Cons d ds)
  obtain X Z chunk where d: "d = (X, Z, chunk)" by (cases d) auto
  have split: "all_stores K (d # ds) = chunk_stores K X Z chunk @ all_stores K ds"
    by (simp add: all_stores_def d)
  have "target ` set (chunk_stores K X Z chunk) \<inter> target ` set (all_stores K ds) = {}"
  proof -
    have "\<And>e. e \<in> set ds \<Longrightarrow>
        target ` set (chunk_stores K X Z chunk)
          \<inter> target ` set (chunk_stores K (fst e) (fst (snd e)) (snd (snd e))) = {}"
    proof -
      fix e assume "e \<in> set ds"
      with Cons.prems d have "(X, Z) \<noteq> (fst e, fst (snd e))"
        by (auto simp: slot_def image_iff)
      then show "target ` set (chunk_stores K X Z chunk)
          \<inter> target ` set (chunk_stores K (fst e) (fst (snd e)) (snd (snd e))) = {}"
        by (rule chunk_targets_disjoint)
    qed
    then show ?thesis
      unfolding set_all_stores by blast
  qed
  moreover have "distinct (map target (all_stores K ds))"
    using Cons by simp
  ultimately show ?case
    by (simp add: split distinct_chunk_targets)
qed

lemma distinct_targets_consistent:
  assumes "distinct (map target ops)"
  shows "consistent ops"
  using assms by (auto simp: consistent_def distinct_map inj_on_def)

lemma well_formed_blank: "well_formed K (blank K)"
  by (simp add: well_formed_def blank_def list_all_iff)

lemma pixel_blank: "r < DIM K \<Longrightarrow> c < DIM K \<Longrightarrow> pixel (blank K) r c = 0"
  by (simp add: pixel_def blank_def)

lemma cells_eqI:
  assumes "well_formed K g" "well_formed K g'"
    and "\<And>r c. r < DIM K \<Longrightarrow> c < DIM K \<Longrightarrow> pixel g r c = pixel g' r c"
  shows "cells g = cells g'"
proof (rule nth_equalityI)
  show "length (cells g) = length (cells g')"
    using assms(1,2) by (simp add: well_formed_def)
next
  fix r assume "r < length (cells g)"
  with assms(1,2) have r: "r < DIM K" "length (cells g ! r) = DIM K" "length (cells g' ! r) = DIM K"
    by (auto simp: well_formed_def list_all_iff)
  show "cells g ! r = cells g' ! r"
  proof (rule nth_equalityI)
    show "length (cells g ! r) = length (cells g' ! r)" using r by simp
  next
    fix c assume "c < length (cells g ! r)"
    with r assms(3) [of r c] show "cells g ! r ! c = cells g' ! r ! c"
      by (simp add: pixel_def)
  qed
qed

lemma addChunk_result:
  assumes "well_formed K img" "X < Region_SIZE K" "Z < Region_SIZE K"
  shows "\<exists>g. addChunk K img X Z chunk = Some g \<and> well_formed K g
     \<and> written g = written img @ map target (chunk_stores K X Z chunk)
     \<and> (\<forall>x < Chunk_SIZE K. \<forall>z < Chunk_SIZE K.
          pixel g (Z * Chunk_SIZE K + z) (X * Chunk_SIZE K + x)
            = htonl (host_order K) (getTopLayer chunk x z))"
proof -
  let ?ops = "chunk_stores K X Z chunk"
  have range: "ops_in_range K ?ops"
    using assms(2,3) by (rule chunk_stores_in_range)
  from run_stores_frame [OF assms(1) range] obtain g where
    g: "run_stores K ?ops img = Some g" "well_formed K g" "written g = written img @ map target ?ops"
    by blast
  have cons: "consistent ?ops"
    by (rule distinct_targets_consistent) (rule distinct_chunk_targets)
  have "pixel g (Z * Chunk_SIZE K + z) (X * Chunk_SIZE K + x)
      = htonl (host_order K) (getTopLayer chunk x z)"
    if "x < Chunk_SIZE K" "z < Chunk_SIZE K" for x z
  proof -
    have "(Z * Chunk_SIZE K + z, X * Chunk_SIZE K + x, htonl (host_order K) (getTopLayer chunk x z))
        \<in> set ?ops"
      using that unfolding set_chunk_stores by blast
    from run_stores_hit [OF assms(1) range cons g(1) this] show ?thesis .
  qed
  with g show ?thesis
    by (auto simp: addChunk_stores)
qed

lemma visit_all_result:
  assumes "well_formed K img" "visitor_contract K ds"
  shows "\<exists>g. visit_all K ds img = Some g \<and> well_formed K g
     \<and> written g = written img @ map target (all_stores K ds)
     \<and> (\<forall>op \<in> set (all_stores K ds). pixel g (fst op) (fst (snd op)) = snd (snd op))
     \<and> (\<forall>r c. r < DIM K \<longrightarrow> c < DIM K \<longrightarrow> (r, c) \<notin> target ` set (all_stores K ds)
          \<longrightarrow> pixel g r c = pixel img r c)"
proof -
  let ?ops = "all_stores K ds"
  have range: "ops_in_range K ?ops"
    using assms(2) by (simp add: visitor_contract_def all_stores_in_range)
  have cons: "consistent ?ops"
    using assms(2) by (simp add: visitor_contract_def distinct_targets_consistent distinct_all_targets)
  from run_stores_frame [OF assms(1) range] obtain g where
    g: "run_stores K ?ops img = Some g" "well_formed K g" "written g = written img @ map target ?ops"
    and frame: "\<forall>r c. r < DIM K \<longrightarrow> c < DIM K \<longrightarrow> (r, c) \<notin> target ` set ?ops
          \<longrightarrow> pixel g r c = pixel img r c"
    by blast
  have "pixel g (fst op) (fst (snd op)) = snd (snd op)" if "op \<in> set ?ops" for op
  proof -
    from that have "(fst op, fst (snd op), snd (snd op)) \<in> set ?ops" by simp
    from run_stores_hit [OF assms(1) range cons g(1) this] show ?thesis .
  qed
  with g frame show ?thesis
    by (simp add: visit_all_stores)
qed

lemma visit_all_order:
  assumes "well_formed K img" "visitor_contract K ds" "visitor_contract K ds'" "set ds = set ds'"
  shows "\<exists>g g'. visit_all K ds img = Some g \<and> visit_all K ds' img = Some g' \<and> cells g = cells g'"
proof -
  from visit_all_result [OF assms(1,2)] obtain g where
    g: "visit_all K ds img = Some g" "well_formed K g"
    and hit: "\<And>op. op \<in> set (all_stores K ds) \<Longrightarrow> pixel g (fst op) (fst (snd op)) = snd (snd op)"
    and miss: "\<And>r c. r < DIM K \<Longrightarrow> c < DIM K \<Longrightarrow> (r, c) \<notin> target ` set (all_stores K ds)
          \<Longrightarrow> pixel g r c = pixel img r c"
    by blast
  from visit_all_result [OF assms(1,3)] obtain g' where
    g': "visit_all K ds' img = Some g'" "well_formed K g'"
    and hit': "\<And>op. op \<in> set (all_stores K ds') \<Longrightarrow> pixel g' (fst op) (fst (snd op)) = snd (snd op)"
    and miss': "\<And>r c. r < DIM K \<Longrightarrow> c < DIM K \<Longrightarrow> (r, c) \<notin> target ` set (all_stores K ds')
          \<Longrightarrow> pixel g' r c = pixel img r c"
    by blast
  have same: "set (all_stores K ds') = set (all_stores K ds)"
    using assms(4) by (simp add: set_all_stores)
  have "cells g = cells g'"
  proof (rule cells_eqI [OF g(2) g'(2)])
    fix r c assume rc: "r < DIM K" "c < DIM K"
    show "pixel g r c = pixel g' r c"
    proof (cases "(r, c) \<in> target ` set (all_stores K ds)")
      case True
      then obtain op where op: "op \<in> set (all_stores K ds)" "target op = (r, c)" by auto
      from hit [OF op(1)] hit' [of op] op same show ?thesis
        by (simp add: target_def)
    next
      case False
      with miss [OF rc] miss' [OF rc] same show ?thesis by simp
    qed
  qed
  with g g' show ?thesis by blast
qed

lemma visit_all_Nil [simp]: "visit_all K [] img = Some img"
  by (simp add: visit_all_def)

lemma visit_all_Cons:
  "visit_all K ((X, Z, chunk) # ds) img =
     (case addChunk K img X Z chunk of None \<Rightarrow> None | Some g \<Rightarrow> visit_all K ds g)"
  unfolding visit_all_def by (simp split: option.splits)

lemma absent_slot_untouched:
  assumes "(X, Z) \<notin> slot ` set ds" "x < Chunk_SIZE K" "z < Chunk_SIZE K"
  shows "(Z * Chunk_SIZE K + z, X * Chunk_SIZE K + x) \<notin> target ` set (all_stores K ds)"
proof
  assume "(Z * Chunk_SIZE K + z, X * Chunk_SIZE K + x) \<in> target ` set (all_stores K ds)"
  then obtain d x' z' where d: "d \<in> set ds" and xz: "x' < Chunk_SIZE K" "z' < Chunk_SIZE K"
    and eq: "Z * Chunk_SIZE K + z = fst (snd d) * Chunk_SIZE K + z'"
            "X * Chunk_SIZE K + x = fst d * Chunk_SIZE K + x'"
    by (auto simp: set_all_stores set_chunk_stores target_def)
  from block_index_unique [OF eq(1) assms(3) xz(2)] block_index_unique [OF eq(2) assms(2) xz(1)]
  have "(X, Z) = slot d" by (simp add: slot_def)
  with d assms(1) show False by blast
qed

lemma addChunk_commute_cells:
  assumes "well_formed K img"
    and "X < Region_SIZE K" "Z < Region_SIZE K" "X' < Region_SIZE K" "Z' < Region_SIZE K"
    and "(X, Z) \<noteq> (X', Z')"
  shows "\<exists>g1 g2 g12 g21 ws1 ws2.
       addChunk K img X Z chunk = Some g1 \<and> addChunk K img X' Z' chunk' = Some g2
     \<and> addChunk K g1 X' Z' chunk' = Some g12 \<and> addChunk K g2 X Z chunk = Some g21
     \<and> cells g12 = cells g21
     \<and> written g1 = written img @ ws1 \<and> written g2 = written img @ ws2
     \<and> set ws1 \<inter> set ws2 = {}"
proof -
  let ?a = "(X, Z, chunk)" and ?b = "(X', Z', chunk')"
  from addChunk_result [OF assms(1,2,3), of chunk] obtain g1 where
    g1: "addChunk K img X Z chunk = Some g1" "well_formed K g1"
        "written g1 = written img @ map target (chunk_stores K X Z chunk)"
    by blast
  from addChunk_result [OF assms(1,4,5), of chunk'] obtain g2 where
    g2: "addChunk K img X' Z' chunk' = Some g2" "well_formed K g2"
        "written g2 = written img @ map target (chunk_stores K X' Z' chunk')"
    by blast
  from addChunk_result [OF g1(2) assms(4,5), of chunk'] obtain g12 where
    g12: "addChunk K g1 X' Z' chunk' = Some g12" by blast
  from addChunk_result [OF g2(2) assms(2,3), of chunk] obtain g21 where
    g21: "addChunk K g2 X Z chunk = Some g21" by blast
  have c1: "visitor_contract K [?a, ?b]" and c2: "visitor_contract K [?b, ?a]"
    using assms(2-6) by (auto simp: visitor_contract_def slots_in_range_def slot_def)
  have "set [?a, ?b] = set [?b, ?a]" by auto
  from visit_all_order [OF assms(1) c1 c2 this] have "cells g12 = cells g21"
    by (simp add: visit_all_Cons g1 g2 g12 g21)
  moreover have "set (map target (chunk_stores K X Z chunk))
      \<inter> set (map target (chunk_stores K X' Z' chunk')) = {}"
    using chunk_targets_disjoint [OF assms(6)] by simp
  ultimately show ?thesis
    using g1 g2 g12 g21 by blast
qed

subsection \<open>The claims about the pixel grid\<close>

text \<open>
  Claim C2. For a chunk at the region-local slot \<open>(X, Z)\<close> and a local column \<open>(x, z)\<close>,
  all indices in range, \<^verbatim>\<open>addChunk\<close> completes and leaves in the cell at row
  \<open>Z * Chunk_SIZE + z\<close>, column \<open>X * Chunk_SIZE + x\<close> the color of that column passed
  through \<^verbatim>\<open>htonl\<close>: the bytes of the cell in memory are the bytes of the color in
  network byte order. The instance after the theorem is a chunk at \<open>(1, 0)\<close> with chunk
  side 16, whose column \<open>(x = 3, z = 5)\<close> lands at row 5, column 19.
\<close>

theorem addChunk_writes_column:
  assumes "well_formed K img"
    and "X < Region_SIZE K" "Z < Region_SIZE K"
    and "x < Chunk_SIZE K" "z < Chunk_SIZE K"
  shows "\<exists>g. addChunk K img X Z chunk = Some g
     \<and> cells g ! (Z * Chunk_SIZE K + z) ! (X * Chunk_SIZE K + x)
         = htonl (host_order K) (getTopLayer chunk x z)
     \<and> memory_bytes (host_order K) (cells g ! (Z * Chunk_SIZE K + z) ! (X * Chunk_SIZE K + x))
         = network_bytes (getTopLayer chunk x z)"
proof -
  from addChunk_result [OF assms(1-3), of chunk] obtain g where
    g: "addChunk K img X Z chunk = Some g"
    and px: "\<forall>x < Chunk_SIZE K. \<forall>z < Chunk_SIZE K.
          pixel g (Z * Chunk_SIZE K + z) (X * Chunk_SIZE K + x)
            = htonl (host_order K) (getTopLayer chunk x z)"
    by blast
  from px assms(4,5) have "cells g ! (Z * Chunk_SIZE K + z) ! (X * Chunk_SIZE K + x)
      = htonl (host_order K) (getTopLayer chunk x z)"
    by (simp add: pixel_def)
  with g show ?thesis
    by (simp add: htonl_network_order)
qed

theorem addChunk_writes_column_witness:
  "well_formed \<lparr>Region_SIZE = 32, Chunk_SIZE = 16, host_order = LittleEndian\<rparr>
     (blank \<lparr>Region_SIZE = 32, Chunk_SIZE = 16, host_order = LittleEndian\<rparr>)
   \<and> (1::nat) < 32 \<and> (0::nat) < 32 \<and> (3::nat) < 16 \<and> (5::nat) < 16
   \<and> (\<exists>g. addChunk \<lparr>Region_SIZE = 32, Chunk_SIZE = 16, host_order = LittleEndian\<rparr>
            (blank \<lparr>Region_SIZE = 32, Chunk_SIZE = 16, host_order = LittleEndian\<rparr>) 1 0
            (Chunk (\<lambda>x z. if x = 3 \<and> z = 5 then 0x11223344 else 0)) = Some g
        \<and> cells g ! 5 ! 19 = 0x44332211
        \<and> memory_bytes LittleEndian (cells g ! 5 ! 19) = [0x11, 0x22, 0x33, 0x44])"
proof -
  let ?K = "\<lparr>Region_SIZE = 32, Chunk_SIZE = 16, host_order = LittleEndian\<rparr>"
  let ?chunk = "Chunk (\<lambda>x z. if x = 3 \<and> z = 5 then 0x11223344 else 0)"
  have wf: "well_formed ?K (blank ?K)"
    by (rule well_formed_blank)
  have h: "htonl LittleEndian 0x11223344 = 0x44332211"
    by (simp add: htonl_def bswap32_def)
  have n: "network_bytes 0x11223344 = [0x11, 0x22, 0x33, 0x44]"
    by (simp add: network_bytes_def byte_of_def)
  from addChunk_writes_column [of ?K "blank ?K" 1 0 3 5 ?chunk] wf
  obtain g where "addChunk ?K (blank ?K) 1 0 ?chunk = Some g"
    and "cells g ! 5 ! 19 = htonl LittleEndian 0x11223344"
    and "memory_bytes LittleEndian (cells g ! 5 ! 19) = network_bytes 0x11223344"
    by auto
  with wf h n show ?thesis by simp
qed

text \<open>
  Claim C9. In one regeneration pass, with the region visitor keeping its iteration
  contract (slots in range and pairwise distinct), the grid starts with every cell zero
  and nothing written, the visit completes, every cell is stored to at most once (the
  list of stores has no repetition), and every cell of a slot that is not delivered is
  still zero in the image that \<^verbatim>\<open>doRegion\<close> goes on to encode.
\<close>

theorem grid_zero_written_once:
  assumes "visitor_contract K ds"
  shows "(\<forall>r < DIM K. \<forall>c < DIM K. pixel (blank K) r c = 0) \<and> written (blank K) = []
     \<and> (\<exists>img. visit_all K ds (blank K) = Some img
          \<and> (\<forall>v. delivered v = ds \<and> thrown v = None \<longrightarrow> compose K v = Some (Inr img))
          \<and> distinct (written img)
          \<and> (\<forall>X < Region_SIZE K. \<forall>Z < Region_SIZE K. (X, Z) \<notin> slot ` set ds \<longrightarrow>
                (\<forall>x < Chunk_SIZE K. \<forall>z < Chunk_SIZE K.
                   pixel img (Z * Chunk_SIZE K + z) (X * Chunk_SIZE K + x) = 0)))"
proof -
  from visit_all_result [OF well_formed_blank assms] obtain img where
    img: "visit_all K ds (blank K) = Some img"
    and wr: "written img = written (blank K) @ map target (all_stores K ds)"
    and miss: "\<And>r c. r < DIM K \<Longrightarrow> c < DIM K \<Longrightarrow> (r, c) \<notin> target ` set (all_stores K ds)
          \<Longrightarrow> pixel img r c = pixel (blank K) r c"
    by blast
  have "distinct (written img)"
    using assms by (simp add: wr blank_def visitor_contract_def distinct_all_targets)
  moreover have "pixel img (Z * Chunk_SIZE K + z) (X * Chunk_SIZE K + x) = 0"
    if "X < Region_SIZE K" "Z < Region_SIZE K" "(X, Z) \<notin> slot ` set ds"
      "x < Chunk_SIZE K" "z < Chunk_SIZE K" for X Z x z
  proof -
    have r: "Z * Chunk_SIZE K + z < DIM K" and c: "X * Chunk_SIZE K + x < DIM K"
      using that by (simp_all add: DIM_def block_index_less)
    from miss [OF r c absent_slot_untouched [OF that(3,4,5)]] pixel_blank [OF r c]
    show ?thesis by simp
  qed
  moreover have "\<forall>v. delivered v = ds \<and> thrown v = None \<longrightarrow> compose K v = Some (Inr img)"
    by (simp add: compose_def img)
  moreover have "written (blank K) = []"
    by (simp add: blank_def)
  ultimately show ?thesis
    using img pixel_blank by blast
qed

theorem grid_zero_written_once_witness:
  "visitor_contract \<lparr>Region_SIZE = 2, Chunk_SIZE = 2, host_order = LittleEndian\<rparr>
     [(1, 0, Chunk (\<lambda>x z. 0x11223344))]
   \<and> (\<exists>img. visit_all \<lparr>Region_SIZE = 2, Chunk_SIZE = 2, host_order = LittleEndian\<rparr>
              [(1, 0, Chunk (\<lambda>x z. 0x11223344))]
              (blank \<lparr>Region_SIZE = 2, Chunk_SIZE = 2, host_order = LittleEndian\<rparr>) = Some img
        \<and> distinct (written img)
        \<and> pixel img 0 0 = 0 \<and> pixel img 3 1 = 0 \<and> pixel img 2 3 = 0)"
proof -
  let ?K = "\<lparr>Region_SIZE = 2, Chunk_SIZE = 2, host_order = LittleEndian\<rparr>"
  let ?ds = "[(1, 0, Chunk (\<lambda>x z. 0x11223344))]"
  have c: "visitor_contract ?K ?ds"
    by (simp add: visitor_contract_def slots_in_range_def slot_def)
  from grid_zero_written_once [OF c] obtain img where
    img: "visit_all ?K ?ds (blank ?K) = Some img" "distinct (written img)"
    and absent: "\<And>X Z x z. X < 2 \<Longrightarrow> Z < 2 \<Longrightarrow> (X, Z) \<notin> slot ` set ?ds \<Longrightarrow> x < 2 \<Longrightarrow> z < 2
        \<Longrightarrow> pixel img (Z * 2 + z) (X * 2 + x) = 0"
    by auto
  from absent [of 0 0 0 0] absent [of 0 1 1 1] absent [of 1 1 1 0]
  have "pixel img 0 0 = 0" "pixel img 3 1 = 0" "pixel img 2 3 = 0"
    by (simp_all add: slot_def)
  with c img show ?thesis by blast
qed

text \<open>
  Claim C10. Two calls of \<^verbatim>\<open>addChunk\<close> at distinct slots in range store to disjoint
  sets of cells and commute: either order gives the same cells. Hence two visits that
  deliver the same set of slots and chunks, each keeping the iteration contract, compose
  the same grid whatever the order of delivery.
\<close>

theorem addChunk_order_independent:
  "(well_formed K img \<and> X < Region_SIZE K \<and> Z < Region_SIZE K
      \<and> X' < Region_SIZE K \<and> Z' < Region_SIZE K \<and> (X, Z) \<noteq> (X', Z') \<longrightarrow>
      (\<exists>g1 g2 g12 g21 ws1 ws2.
           addChunk K img X Z chunk = Some g1 \<and> addChunk K img X' Z' chunk' = Some g2
         \<and> addChunk K g1 X' Z' chunk' = Some g12 \<and> addChunk K g2 X Z chunk = Some g21
         \<and> cells g12 = cells g21
         \<and> written g1 = written img @ ws1 \<and> written g2 = written img @ ws2
         \<and> set ws1 \<inter> set ws2 = {}))
   \<and> (visitor_contract K ds \<and> visitor_contract K ds' \<and> set ds = set ds' \<longrightarrow>
      (\<exists>g g'. visit_all K ds (blank K) = Some g \<and> visit_all K ds' (blank K) = Some g'
         \<and> cells g = cells g'))"
  using addChunk_commute_cells [of K img X Z X' Z' chunk chunk']
    visit_all_order [OF well_formed_blank, of K ds ds']
  by blast

theorem addChunk_order_independent_witness:
  "(well_formed \<lparr>Region_SIZE = 2, Chunk_SIZE = 2, host_order = LittleEndian\<rparr>
      (blank \<lparr>Region_SIZE = 2, Chunk_SIZE = 2, host_order = LittleEndian\<rparr>)
    \<and> (1::nat) < 2 \<and> (0::nat) < 2 \<and> ((1::nat), (0::nat)) \<noteq> (0, 1))
   \<and> visitor_contract \<lparr>Region_SIZE = 2, Chunk_SIZE = 2, host_order = LittleEndian\<rparr>
        [(1, 0, Chunk (\<lambda>x z. 7)), (0, 1, Chunk (\<lambda>x z. 9))]
   \<and> visitor_contract \<lparr>Region_SIZE = 2, Chunk_SIZE = 2, host_order = LittleEndian\<rparr>
        [(0, 1, Chunk (\<lambda>x z. 9)), (1, 0, Chunk (\<lambda>x z. 7))]
   \<and> (\<exists>g1 g2 g12 g21.
         addChunk \<lparr>Region_SIZE = 2, Chunk_SIZE = 2, host_order = LittleEndian\<rparr>
           (blank \<lparr>Region_SIZE = 2, Chunk_SIZE = 2, host_order = LittleEndian\<rparr>)
           1 0 (Chunk (\<lambda>x z. 7)) = Some g1
       \<and> addChunk \<lparr>Region_SIZE = 2, Chunk_SIZE = 2, host_order = LittleEndian\<rparr>
           (blank \<lparr>Region_SIZE = 2, Chunk_SIZE = 2, host_order = LittleEndian\<rparr>)
           0 1 (Chunk (\<lambda>x z. 9)) = Some g2
       \<and> addChunk \<lparr>Region_SIZE = 2, Chunk_SIZE = 2, host_order = LittleEndian\<rparr>
           g1 0 1 (Chunk (\<lambda>x z. 9)) = Some g12
       \<and> addChunk \<lparr>Region_SIZE = 2, Chunk_SIZE = 2, host_order = LittleEndian\<rparr>
           g2 1 0 (Chunk (\<lambda>x z. 7)) = Some g21
       \<and> cells g12 = cells g21)
   \<and> (\<exists>g g'.
         visit_all \<lparr>Region_SIZE = 2, Chunk_SIZE = 2, host_order = LittleEndian\<rparr>
           [(1, 0, Chunk (\<lambda>x z. 7)), (0, 1, Chunk (\<lambda>x z. 9))]
           (blank \<lparr>Region_SIZE = 2, Chunk_SIZE = 2, host_order = LittleEndian\<rparr>) = Some g
       \<and> visit_all \<lparr>Region_SIZE = 2, Chunk_SIZE = 2, host_order = LittleEndian\<rparr>
           [(0, 1, Chunk (\<lambda>x z. 9)), (1, 0, Chunk (\<lambda>x z. 7))]
           (blank \<lparr>Region_SIZE = 2, Chunk_SIZE = 2, host_order = LittleEndian\<rparr>) = Some g'
       \<and> cells g = cells g')"
proof -
  let ?K = "\<lparr>Region_SIZE = 2, Chunk_SIZE = 2, host_order = LittleEndian\<rparr>"
  let ?a = "(1::nat, 0::nat, Chunk (\<lambda>x z. 7))" and ?b = "(0::nat, 1::nat, Chunk (\<lambda>x z. 9))"
  have wf: "well_formed ?K (blank ?K)"
    by (rule well_formed_blank)
  have c1: "visitor_contract ?K [?a, ?b]" and c2: "visitor_contract ?K [?b, ?a]"
    by (simp_all add: visitor_contract_def slots_in_range_def slot_def)
  have s: "set [?a, ?b] = set [?b, ?a]" by auto
  have r: "(1::nat) < Region_SIZE ?K" "(0::nat) < Region_SIZE ?K" "((1::nat), (0::nat)) \<noteq> (0, 1)"
    by simp_all
  note inst = addChunk_order_independent [of ?K "blank ?K" 1 0 0 1 "Chunk (\<lambda>x z. 7)" "Chunk (\<lambda>x z. 9)"
      "[?a, ?b]" "[?b, ?a]"]
  from inst wf r have one: "\<exists>g1 g2 g12 g21.
         addChunk ?K (blank ?K) 1 0 (Chunk (\<lambda>x z. 7)) = Some g1
       \<and> addChunk ?K (blank ?K) 0 1 (Chunk (\<lambda>x z. 9)) = Some g2
       \<and> addChunk ?K g1 0 1 (Chunk (\<lambda>x z. 9)) = Some g12
       \<and> addChunk ?K g2 1 0 (Chunk (\<lambda>x z. 7)) = Some g21
       \<and> cells g12 = cells g21"
    by blast
  from inst c1 c2 s have two: "\<exists>g g'. visit_all ?K [?a, ?b] (blank ?K) = Some g
       \<and> visit_all ?K [?b, ?a] (blank ?K) = Some g' \<and> cells g = cells g'"
    by blast
  from wf c1 c2 one two show ?thesis by simp
qed

section \<open>Properties of doRegion\<close>

lemma visit_all_in_range:
  assumes "well_formed K img" "slots_in_range K ds"
  shows "\<exists>g. visit_all K ds img = Some g \<and> well_formed K g"
proof -
  from run_stores_frame [OF assms(1) all_stores_in_range [OF assms(2)]]
  show ?thesis by (auto simp: visit_all_stores)
qed

lemma compose_in_range:
  assumes "slots_in_range K (delivered v)"
  shows "\<exists>img. visit_all K (delivered v) (blank K) = Some img
     \<and> compose K v = Some (case thrown v of Some what \<Rightarrow> Inl what | None \<Rightarrow> Inr img)"
  using visit_all_in_range [OF well_formed_blank assms]
  by (auto simp: compose_def)

lemma compose_quiet:
  "\<exists>img. compose small (visitChunks quiet path) = Some (Inr img) \<and> cells img = tile"
proof -
  have "visit_all small [(1, 0, Chunk (\<lambda>x z. 0x11223344))] (blank small)
     = Some \<lparr>cells = tile, written = [(0, 2), (1, 2), (0, 3), (1, 3)]\<rparr>"
    by code_simp
  then show ?thesis
    by (simp add: compose_def quiet_def)
qed

lemma up_to_date_stamp:
  "up_to_date instat out
     = (\<exists>outstat. out = Some outstat \<and> stamp (st_mtim instat) \<le> stamp (st_mtim outstat))"
  by (cases out) (auto simp: up_to_date_def stamp_def)

lemma regenerate_announces:
  "regenerate K E fs instat input output = Some (printed, fs')
     \<Longrightarrow> \<exists>rest. printed = Generating output input # rest"
  by (auto simp: regenerate_def Let_def split: option.splits sum.splits prod.splits)

lemma try_block_total:
  assumes "slots_in_range K (delivered (visitChunks E input))"
  shows "\<exists>r fs'. try_block K E fs instat input output tmpfile = Some (r, fs')"
proof -
  from compose_in_range [OF assms] obtain img where
    "compose K (visitChunks E input)
       = Some (case thrown (visitChunks E input) of Some what \<Rightarrow> Inl what | None \<Rightarrow> Inr img)"
    by blast
  then show ?thesis
    by (auto simp: try_block_def Let_def split: option.splits sum.splits prod.splits)
qed

lemma regenerate_total:
  assumes "slots_in_range K (delivered (visitChunks E input))"
  shows "\<exists>rest fs'. regenerate K E fs instat input output
           = Some (Generating output input # rest, fs')"
  using try_block_total [OF assms, of fs instat "output" "output @ ''.tmp''"]
  by (auto simp: regenerate_def Let_def split: sum.splits)

lemma doRegion_total:
  assumes "slots_in_range K (delivered (visitChunks E input))"
  shows "\<exists>printed fs'. doRegion K E fs input output = Some (printed, fs')"
proof (cases "stat fs input")
  case None
  then show ?thesis by (simp add: doRegion_def)
next
  case (Some instat)
  with regenerate_total [OF assms, of fs instat "output"] show ?thesis
    by (auto simp: doRegion_def)
qed

lemma writePNG_frame: "p \<noteq> filename \<Longrightarrow> snd (writePNG E fs filename data) p = fs p"
  by (simp add: writePNG_def Let_def)

lemma writePNG_returns:
  assumes "\<not> fopen_fails E filename" "\<not> png_create_write_struct_fails E filename"
    "\<not> png_create_info_struct_fails E filename" "\<not> png_write_fails E filename"
  shows "writePNG E fs filename data =
     (Inr (), fs(filename \<mapsto>
        \<lparr>content = (if fclose_fails E filename then Incomplete else PNG data),
         mtim = clock E filename, atim = access_clock E filename\<rparr>))"
  using assms by (simp add: writePNG_def Let_def)

lemma writePNG_throws:
  assumes "fopen_fails E filename \<or> png_create_write_struct_fails E filename
     \<or> png_create_info_struct_fails E filename \<or> png_write_fails E filename"
  shows "\<exists>what fs1. writePNG E fs filename data = (Inl what, fs1)
     \<and> (\<forall>p. p \<noteq> filename \<longrightarrow> fs1 p = fs p)"
  using assms by (auto simp: writePNG_def Let_def)

text \<open>
  What a regeneration does when the visit and every tested step of the encoding succeed:
  the file written is renamed onto the output, or removed when the rename fails. Its
  content is the complete image, unless the final \<^verbatim>\<open>fclose\<close> failed.
\<close>

lemma doRegion_written:
  assumes "slots_in_range K (delivered (visitChunks E input))"
    and "stat fs input = Some instat" "\<not> up_to_date instat (stat fs output)"
    and "thrown (visitChunks E input) = None"
    and "\<not> fopen_fails E (output @ ''.tmp'')"
        "\<not> png_create_write_struct_fails E (output @ ''.tmp'')"
        "\<not> png_create_info_struct_fails E (output @ ''.tmp'')"
        "\<not> png_write_fails E (output @ ''.tmp'')"
  shows "\<exists>img. compose K (visitChunks E input) = Some (Inr img)
     \<and> doRegion K E fs input output =
         Some (Generating output input
                 # (if utimensat_fails E (output @ ''.tmp'') then [WarningUtime (output @ ''.tmp'')] else [])
                 @ (if rename_fails E (output @ ''.tmp'') output then [UnableToSave output] else []),
               if rename_fails E (output @ ''.tmp'') output
               then unlink E (fs(output @ ''.tmp'' \<mapsto>
                 \<lparr>content = (if fclose_fails E (output @ ''.tmp'') then Incomplete
                             else PNG (cells img)),
                  mtim = (if utimensat_fails E (output @ ''.tmp'') then clock E (output @ ''.tmp'')
                          else st_mtim instat),
                  atim = (if utimensat_fails E (output @ ''.tmp'')
                          then access_clock E (output @ ''.tmp'') else st_mtim instat)\<rparr>))
                 (output @ ''.tmp'')
               else (fs(output @ ''.tmp'' := None))(output \<mapsto>
                 \<lparr>content = (if fclose_fails E (output @ ''.tmp'') then Incomplete
                             else PNG (cells img)),
                  mtim = (if utimensat_fails E (output @ ''.tmp'') then clock E (output @ ''.tmp'')
                          else st_mtim instat),
                  atim = (if utimensat_fails E (output @ ''.tmp'')
                          then access_clock E (output @ ''.tmp'') else st_mtim instat)\<rparr>))"
proof -
  let ?tmp = "output @ ''.tmp''"
  from compose_in_range [OF assms(1)] assms(4) obtain img where
    c: "compose K (visitChunks E input) = Some (Inr img)" by auto
  note w = writePNG_returns [OF assms(5-8), of fs "cells img"]
  have "doRegion K E fs input output = regenerate K E fs instat input output"
    using assms(2,3) by (simp add: doRegion_def)
  with c w show ?thesis
    by (auto simp: regenerate_def try_block_def Let_def rename_def utimensat_def fun_upd_twist)
qed

lemma doRegion_encoded:
  assumes "slots_in_range K (delivered (visitChunks E input))"
    and "stat fs input = Some instat" "\<not> up_to_date instat (stat fs output)"
    and "thrown (visitChunks E input) = None"
    and "\<not> fopen_fails E (output @ ''.tmp'')"
        "\<not> png_create_write_struct_fails E (output @ ''.tmp'')"
        "\<not> png_create_info_struct_fails E (output @ ''.tmp'')"
        "\<not> png_write_fails E (output @ ''.tmp'')"
        "\<not> fclose_fails E (output @ ''.tmp'')"
  shows "\<exists>img. compose K (visitChunks E input) = Some (Inr img)
     \<and> doRegion K E fs input output =
         Some (Generating output input
                 # (if utimensat_fails E (output @ ''.tmp'') then [WarningUtime (output @ ''.tmp'')] else [])
                 @ (if rename_fails E (output @ ''.tmp'') output then [UnableToSave output] else []),
               if rename_fails E (output @ ''.tmp'') output
               then unlink E (fs(output @ ''.tmp'' \<mapsto>
                 \<lparr>content = PNG (cells img),
                  mtim = (if utimensat_fails E (output @ ''.tmp'') then clock E (output @ ''.tmp'')
                          else st_mtim instat),
                  atim = (if utimensat_fails E (output @ ''.tmp'')
                          then access_clock E (output @ ''.tmp'') else st_mtim instat)\<rparr>))
                 (output @ ''.tmp'')
               else (fs(output @ ''.tmp'' := None))(output \<mapsto>
                 \<lparr>content = PNG (cells img),
                  mtim = (if utimensat_fails E (output @ ''.tmp'') then clock E (output @ ''.tmp'')
                          else st_mtim instat),
                  atim = (if utimensat_fails E (output @ ''.tmp'')
                          then access_clock E (output @ ''.tmp'') else st_mtim instat)\<rparr>))"
proof -
  from doRegion_written [OF assms(1-8)] obtain img where
    c: "compose K (visitChunks E input) = Some (Inr img)"
    and run: "doRegion K E fs input output =
         Some (Generating output input
                 # (if utimensat_fails E (output @ ''.tmp'') then [WarningUtime (output @ ''.tmp'')] else [])
                 @ (if rename_fails E (output @ ''.tmp'') output then [UnableToSave output] else []),
               if rename_fails E (output @ ''.tmp'') output
               then unlink E (fs(output @ ''.tmp'' \<mapsto>
                 \<lparr>content = (if fclose_fails E (output @ ''.tmp'') then Incomplete
                             else PNG (cells img)),
                  mtim = (if utimensat_fails E (output @ ''.tmp'') then clock E (output @ ''.tmp'')
                          else st_mtim instat),
                  atim = (if utimensat_fails E (output @ ''.tmp'')
                          then access_clock E (output @ ''.tmp'') else st_mtim instat)\<rparr>))
                 (output @ ''.tmp'')
               else (fs(output @ ''.tmp'' := None))(output \<mapsto>
                 \<lparr>content = (if fclose_fails E (output @ ''.tmp'') then Incomplete
                             else PNG (cells img)),
                  mtim = (if utimensat_fails E (output @ ''.tmp'') then clock E (output @ ''.tmp'')
                          else st_mtim instat),
                  atim = (if utimensat_fails E (output @ ''.tmp'')
                          then access_clock E (output @ ''.tmp'') else st_mtim instat)\<rparr>))"
    by blast
  from run assms(9) have "doRegion K E fs input output =
         Some (Generating output input
                 # (if utimensat_fails E (output @ ''.tmp'') then [WarningUtime (output @ ''.tmp'')] else [])
                 @ (if rename_fails E (output @ ''.tmp'') output then [UnableToSave output] else []),
               if rename_fails E (output @ ''.tmp'') output
               then unlink E (fs(output @ ''.tmp'' \<mapsto>
                 \<lparr>content = PNG (cells img),
                  mtim = (if utimensat_fails E (output @ ''.tmp'') then clock E (output @ ''.tmp'')
                          else st_mtim instat),
                  atim = (if utimensat_fails E (output @ ''.tmp'')
                          then access_clock E (output @ ''.tmp'') else st_mtim instat)\<rparr>))
                 (output @ ''.tmp'')
               else (fs(output @ ''.tmp'' := None))(output \<mapsto>
                 \<lparr>content = PNG (cells img),
                  mtim = (if utimensat_fails E (output @ ''.tmp'') then clock E (output @ ''.tmp'')
                          else st_mtim instat),
                  atim = (if utimensat_fails E (output @ ''.tmp'')
                          then access_clock E (output @ ''.tmp'') else st_mtim instat)\<rparr>))"
    by simp
  with c show ?thesis by blast
qed


text \<open>
  Claim C1. With the input stat'ed (its time stamp is what the test compares with),
  \<^verbatim>\<open>doRegion\<close> takes the region as up to date, printing that line and leaving the
  file system as it is, if and only if the output can be stat'ed and its modification
  time, as the pair of seconds and nanoseconds in lexicographic order, is at least the
  input's. Otherwise, the output missing or strictly older, the region is regenerated:
  with the visitor's slots in range \<^verbatim>\<open>doRegion\<close> returns with the generation announced,
  and when the visit and the encoding succeed, the grid composed from the chunks
  delivered is encoded into the temporary file, which gets the input's modification time
  (or a warning) and is renamed onto the output (or removed, with the line
  \<^verbatim>\<open>Unable to save\<close>, when the rename fails).
\<close>

theorem doRegion_up_to_date_iff:
  assumes "stat fs input = Some instat"
  shows "(doRegion K E fs input output = Some ([UpToDate output], fs))
       = (\<exists>outstat. stat fs output = Some outstat
            \<and> (tv_sec (st_mtim instat), tv_nsec (st_mtim instat))
                \<le> (tv_sec (st_mtim outstat), tv_nsec (st_mtim outstat)))
     \<and> (\<not> (\<exists>outstat. stat fs output = Some outstat
            \<and> (tv_sec (st_mtim instat), tv_nsec (st_mtim instat))
                \<le> (tv_sec (st_mtim outstat), tv_nsec (st_mtim outstat)))
          \<and> slots_in_range K (delivered (visitChunks E input))
        \<longrightarrow> (\<exists>rest fs'. doRegion K E fs input output
                  = Some (Generating output input # rest, fs'))
          \<and> (thrown (visitChunks E input) = None
              \<and> \<not> fopen_fails E (output @ ''.tmp'')
              \<and> \<not> png_create_write_struct_fails E (output @ ''.tmp'')
              \<and> \<not> png_create_info_struct_fails E (output @ ''.tmp'')
              \<and> \<not> png_write_fails E (output @ ''.tmp'')
              \<and> \<not> fclose_fails E (output @ ''.tmp'')
             \<longrightarrow> (\<exists>img. compose K (visitChunks E input) = Some (Inr img)
                   \<and> doRegion K E fs input output =
                       Some (Generating output input
                               # (if utimensat_fails E (output @ ''.tmp'')
                                  then [WarningUtime (output @ ''.tmp'')] else [])
                               @ (if rename_fails E (output @ ''.tmp'') output
                                  then [UnableToSave output] else []),
                             if rename_fails E (output @ ''.tmp'') output
                             then unlink E (fs(output @ ''.tmp'' \<mapsto>
                               \<lparr>content = PNG (cells img),
                                mtim = (if utimensat_fails E (output @ ''.tmp'')
                                        then clock E (output @ ''.tmp'') else st_mtim instat),
                                atim = (if utimensat_fails E (output @ ''.tmp'')
                                        then access_clock E (output @ ''.tmp'')
                                        else st_mtim instat)\<rparr>))
                               (output @ ''.tmp'')
                             else (fs(output @ ''.tmp'' := None))(output \<mapsto>
                               \<lparr>content = PNG (cells img),
                                mtim = (if utimensat_fails E (output @ ''.tmp'')
                                        then clock E (output @ ''.tmp'') else st_mtim instat),
                                atim = (if utimensat_fails E (output @ ''.tmp'')
                                        then access_clock E (output @ ''.tmp'')
                                        else st_mtim instat)\<rparr>)))))"
proof (cases "up_to_date instat (stat fs output)")
  case True
  with assms show ?thesis
    by (simp add: doRegion_def up_to_date_stamp stamp_def)
next
  case False
  then have eq: "doRegion K E fs input output = regenerate K E fs instat input output"
    using assms by (simp add: doRegion_def)
  have differs: "doRegion K E fs input output \<noteq> Some ([UpToDate output], fs)"
    using regenerate_announces [of K E fs instat input "output" "[UpToDate output]" fs] eq
    by auto
  have stale: "\<not> (\<exists>outstat. stat fs output = Some outstat
            \<and> (tv_sec (st_mtim instat), tv_nsec (st_mtim instat))
                \<le> (tv_sec (st_mtim outstat), tv_nsec (st_mtim outstat)))"
    using False by (simp add: up_to_date_stamp stamp_def)
  have announced: "\<exists>rest fs'. doRegion K E fs input output
                  = Some (Generating output input # rest, fs')"
    if "slots_in_range K (delivered (visitChunks E input))"
    using regenerate_total [OF that, of fs instat "output"] eq by simp
  note encoded = doRegion_encoded [OF _ assms False, of K E]
  from differs stale announced encoded show ?thesis
    by blast
qed

theorem doRegion_up_to_date_iff_witness:
  "stat (Map.empty(''in'' \<mapsto> region_file 10 5, ''out'' \<mapsto> region_file 10 5)) ''in''
     = Some \<lparr>st_mtim = at_time 10 5\<rparr>
   \<and> doRegion small quiet (Map.empty(''in'' \<mapsto> region_file 10 5, ''out'' \<mapsto> region_file 10 5))
        ''in'' ''out''
     = Some ([UpToDate ''out''], Map.empty(''in'' \<mapsto> region_file 10 5, ''out'' \<mapsto> region_file 10 5))
   \<and> stat (Map.empty(''in'' \<mapsto> region_file 10 5, ''out'' \<mapsto> region_file 10 4)) ''in''
     = Some \<lparr>st_mtim = at_time 10 5\<rparr>
   \<and> slots_in_range small (delivered (visitChunks quiet ''in''))
   \<and> doRegion small quiet (Map.empty(''in'' \<mapsto> region_file 10 5, ''out'' \<mapsto> region_file 10 4))
        ''in'' ''out''
     = Some ([Generating ''out'' ''in''],
             (Map.empty(''in'' \<mapsto> region_file 10 5, ''out'' \<mapsto> region_file 10 4))
               (''out.tmp'' := None,
                ''out'' \<mapsto> \<lparr>content = PNG tile, mtim = at_time 10 5, atim = at_time 10 5\<rparr>))"
proof -
  let ?fs = "Map.empty(''in'' \<mapsto> region_file 10 5, ''out'' \<mapsto> region_file 10 5)"
  let ?fs' = "Map.empty(''in'' \<mapsto> region_file 10 5, ''out'' \<mapsto> region_file 10 4)"
  have s: "stat ?fs ''in'' = Some \<lparr>st_mtim = at_time 10 5\<rparr>"
    and s': "stat ?fs' ''in'' = Some \<lparr>st_mtim = at_time 10 5\<rparr>"
    by (simp_all add: stat_def region_file_def)
  have r: "slots_in_range small (delivered (visitChunks quiet ''in''))"
    by (simp add: slots_in_range_def small_def quiet_def)
  from doRegion_up_to_date_iff [OF s, of small quiet "''out''"]
  have one: "doRegion small quiet ?fs ''in'' ''out'' = Some ([UpToDate ''out''], ?fs)"
    by (simp add: stat_def region_file_def at_time_def)
  have older: "\<not> (\<exists>outstat. stat ?fs' ''out'' = Some outstat
      \<and> (tv_sec (st_mtim \<lparr>st_mtim = at_time 10 5\<rparr>), tv_nsec (st_mtim \<lparr>st_mtim = at_time 10 5\<rparr>))
          \<le> (tv_sec (st_mtim outstat), tv_nsec (st_mtim outstat)))"
    by (simp add: stat_def region_file_def at_time_def)
  have q: "thrown (visitChunks quiet ''in'') = None
      \<and> \<not> fopen_fails quiet (''out'' @ ''.tmp'')
      \<and> \<not> png_create_write_struct_fails quiet (''out'' @ ''.tmp'')
      \<and> \<not> png_create_info_struct_fails quiet (''out'' @ ''.tmp'')
      \<and> \<not> png_write_fails quiet (''out'' @ ''.tmp'')
      \<and> \<not> fclose_fails quiet (''out'' @ ''.tmp'')"
    and u: "\<not> utimensat_fails quiet (''out'' @ ''.tmp'')"
      "\<not> rename_fails quiet (''out'' @ ''.tmp'') ''out''"
    by (simp_all add: quiet_def)
  from doRegion_up_to_date_iff [OF s', of small quiet "''out''"] older r q
  obtain img where c: "compose small (visitChunks quiet ''in'') = Some (Inr img)"
    and run: "doRegion small quiet ?fs' ''in'' ''out'' =
       Some (Generating ''out'' ''in''
               # (if utimensat_fails quiet (''out'' @ ''.tmp'')
                  then [WarningUtime (''out'' @ ''.tmp'')] else [])
               @ (if rename_fails quiet (''out'' @ ''.tmp'') ''out''
                  then [UnableToSave ''out''] else []),
             if rename_fails quiet (''out'' @ ''.tmp'') ''out''
             then unlink quiet (?fs'(''out'' @ ''.tmp'' \<mapsto>
               \<lparr>content = PNG (cells img),
                mtim = (if utimensat_fails quiet (''out'' @ ''.tmp'')
                        then clock quiet (''out'' @ ''.tmp'') else st_mtim \<lparr>st_mtim = at_time 10 5\<rparr>),
                atim = (if utimensat_fails quiet (''out'' @ ''.tmp'')
                        then access_clock quiet (''out'' @ ''.tmp'')
                        else st_mtim \<lparr>st_mtim = at_time 10 5\<rparr>)\<rparr>))
               (''out'' @ ''.tmp'')
             else (?fs'(''out'' @ ''.tmp'' := None))(''out'' \<mapsto>
               \<lparr>content = PNG (cells img),
                mtim = (if utimensat_fails quiet (''out'' @ ''.tmp'')
                        then clock quiet (''out'' @ ''.tmp'') else st_mtim \<lparr>st_mtim = at_time 10 5\<rparr>),
                atim = (if utimensat_fails quiet (''out'' @ ''.tmp'')
                        then access_clock quiet (''out'' @ ''.tmp'')
                        else st_mtim \<lparr>st_mtim = at_time 10 5\<rparr>)\<rparr>))"
    by blast
  from compose_quiet [of "''in''"] c have "cells img = tile" by auto
  with run u have two: "doRegion small quiet ?fs' ''in'' ''out''
     = Some ([Generating ''out'' ''in''],
             ?fs'(''out.tmp'' := None,
                ''out'' \<mapsto> \<lparr>content = PNG tile, mtim = at_time 10 5, atim = at_time 10 5\<rparr>))"
    by simp
  from s s' r one two show ?thesis by simp
qed


text \<open>
  Claim C4. The claim fails on the code where the final \<^verbatim>\<open>fclose\<close> of \<^verbatim>\<open>writePNG\<close> fails
  (line 97, its result ignored): the last buffer is not written, \<^verbatim>\<open>writePNG\<close> returns
  normally, and \<^verbatim>\<open>doRegion\<close> sets the times of the incomplete file and renames it onto
  the output. Here the output held an earlier file; after the call it holds an incomplete
  image, and nothing but the announcement was printed.
\<close>

theorem doRegion_publishes_incomplete_image:
  "(case doRegion small (quiet\<lparr>fclose_fails := \<lambda>path. True\<rparr>)
           (Map.empty(''in'' \<mapsto> region_file 10 5, ''out'' \<mapsto> region_file 9 0)) ''in'' ''out'' of
      None \<Rightarrow> False
    | Some (printed, fs') \<Rightarrow>
        printed = [Generating ''out'' ''in'']
        \<and> fs' ''out'' = Some \<lparr>content = Incomplete, mtim = at_time 10 5, atim = at_time 10 5\<rparr>
        \<and> fs' ''out.tmp'' = None)"
proof -
  let ?E = "quiet\<lparr>fclose_fails := \<lambda>path. True\<rparr>"
  let ?fs = "Map.empty(''in'' \<mapsto> region_file 10 5, ''out'' \<mapsto> region_file 9 0)"
  have r: "slots_in_range small (delivered (visitChunks ?E ''in''))"
    by (simp add: slots_in_range_def small_def quiet_def)
  have st: "stat ?fs ''in'' = Some \<lparr>st_mtim = at_time 10 5\<rparr>"
    by (simp add: stat_def region_file_def)
  have old: "\<not> up_to_date \<lparr>st_mtim = at_time 10 5\<rparr> (stat ?fs ''out'')"
    by (simp add: up_to_date_def stat_def region_file_def at_time_def)
  have q: "thrown (visitChunks ?E ''in'') = None"
      "\<not> fopen_fails ?E (''out'' @ ''.tmp'')"
      "\<not> png_create_write_struct_fails ?E (''out'' @ ''.tmp'')"
      "\<not> png_create_info_struct_fails ?E (''out'' @ ''.tmp'')"
      "\<not> png_write_fails ?E (''out'' @ ''.tmp'')"
    and u: "fclose_fails ?E (''out'' @ ''.tmp'')"
      "\<not> utimensat_fails ?E (''out'' @ ''.tmp'')"
      "\<not> rename_fails ?E (''out'' @ ''.tmp'') ''out''"
    by (simp_all add: quiet_def)
  from doRegion_written [OF r st old q] u
  have "doRegion small ?E ?fs ''in'' ''out''
     = Some ([Generating ''out'' ''in''],
             ?fs(''out.tmp'' := None,
                 ''out'' \<mapsto> \<lparr>content = Incomplete, mtim = at_time 10 5, atim = at_time 10 5\<rparr>))"
    by simp
  then show ?thesis by simp
qed

text \<open>
  Claim C7. In a regeneration where the visit, the encoding (the final \<^verbatim>\<open>fclose\<close>
  included) and the rename succeed, the published output holds the encoded grid; when
  \<^verbatim>\<open>utimensat\<close> succeeded too, its modification and access times are the input's
  modification time and nothing but the announcement is printed; when \<^verbatim>\<open>utimensat\<close>
  failed, a warning is printed and the file is published all the same, with the times it
  got when it was written.
\<close>

theorem published_times_mirror_input:
  assumes "slots_in_range K (delivered (visitChunks E input))"
    and "stat fs input = Some instat" "\<not> up_to_date instat (stat fs output)"
    and "thrown (visitChunks E input) = None"
    and "\<not> fopen_fails E (output @ ''.tmp'')"
        "\<not> png_create_write_struct_fails E (output @ ''.tmp'')"
        "\<not> png_create_info_struct_fails E (output @ ''.tmp'')"
        "\<not> png_write_fails E (output @ ''.tmp'')"
        "\<not> fclose_fails E (output @ ''.tmp'')"
    and "\<not> rename_fails E (output @ ''.tmp'') output"
  shows "\<exists>img printed fs'. compose K (visitChunks E input) = Some (Inr img)
     \<and> doRegion K E fs input output = Some (printed, fs')
     \<and> (if utimensat_fails E (output @ ''.tmp'')
         then WarningUtime (output @ ''.tmp'') \<in> set printed
            \<and> fs' output = Some \<lparr>content = PNG (cells img),
                  mtim = clock E (output @ ''.tmp''),
                  atim = access_clock E (output @ ''.tmp'')\<rparr>
         else printed = [Generating output input]
            \<and> fs' output = Some \<lparr>content = PNG (cells img),
                  mtim = st_mtim instat, atim = st_mtim instat\<rparr>)"
proof -
  let ?tmp = "output @ ''.tmp''"
  from doRegion_encoded [OF assms(1-9)] assms(10) obtain img where
    c: "compose K (visitChunks E input) = Some (Inr img)"
    and run: "doRegion K E fs input output =
         Some (Generating output input # (if utimensat_fails E ?tmp then [WarningUtime ?tmp] else []),
               (fs(?tmp := None))(output \<mapsto>
                 \<lparr>content = PNG (cells img),
                  mtim = (if utimensat_fails E ?tmp then clock E ?tmp else st_mtim instat),
                  atim = (if utimensat_fails E ?tmp then access_clock E ?tmp
                          else st_mtim instat)\<rparr>))"
    by auto
  show ?thesis
  proof (cases "utimensat_fails E ?tmp")
    case True
    with c run show ?thesis by simp
  next
    case False
    with c run show ?thesis by simp
  qed
qed

theorem published_times_mirror_input_witness:
  "(\<exists>(img::grid) fs'.
       doRegion small quiet (Map.empty(''in'' \<mapsto> region_file 10 5)) ''in'' ''out''
         = Some ([Generating ''out'' ''in''], fs')
     \<and> fs' ''out'' = Some \<lparr>content = PNG (cells img), mtim = at_time 10 5, atim = at_time 10 5\<rparr>)
   \<and> (\<exists>(img::grid) printed fs'.
       doRegion small (quiet\<lparr>utimensat_fails := \<lambda>path. True\<rparr>)
           (Map.empty(''in'' \<mapsto> region_file 10 5)) ''in'' ''out''
         = Some (printed, fs')
     \<and> WarningUtime ''out.tmp'' \<in> set printed
     \<and> fs' ''out'' = Some \<lparr>content = PNG (cells img), mtim = at_time 500 0, atim = at_time 499 0\<rparr>)"
proof -
  let ?fs = "Map.empty(''in'' \<mapsto> region_file 10 5)"
  let ?E = "quiet\<lparr>utimensat_fails := \<lambda>path. True\<rparr>"
  have st: "stat ?fs ''in'' = Some \<lparr>st_mtim = at_time 10 5\<rparr>"
    by (simp add: stat_def region_file_def)
  have old: "\<not> up_to_date \<lparr>st_mtim = at_time 10 5\<rparr> (stat ?fs ''out'')"
    by (simp add: up_to_date_def stat_def)
  have r: "slots_in_range small (delivered (visitChunks quiet ''in''))"
    and r': "slots_in_range small (delivered (visitChunks ?E ''in''))"
    by (simp_all add: slots_in_range_def small_def quiet_def)
  have q: "thrown (visitChunks quiet ''in'') = None"
      "\<not> fopen_fails quiet (''out'' @ ''.tmp'')"
      "\<not> png_create_write_struct_fails quiet (''out'' @ ''.tmp'')"
      "\<not> png_create_info_struct_fails quiet (''out'' @ ''.tmp'')"
      "\<not> png_write_fails quiet (''out'' @ ''.tmp'')"
      "\<not> fclose_fails quiet (''out'' @ ''.tmp'')"
      "\<not> rename_fails quiet (''out'' @ ''.tmp'') ''out''"
    and u: "\<not> utimensat_fails quiet (''out'' @ ''.tmp'')"
    by (simp_all add: quiet_def)
  have q': "thrown (visitChunks ?E ''in'') = None"
      "\<not> fopen_fails ?E (''out'' @ ''.tmp'')"
      "\<not> png_create_write_struct_fails ?E (''out'' @ ''.tmp'')"
      "\<not> png_create_info_struct_fails ?E (''out'' @ ''.tmp'')"
      "\<not> png_write_fails ?E (''out'' @ ''.tmp'')"
      "\<not> fclose_fails ?E (''out'' @ ''.tmp'')"
      "\<not> rename_fails ?E (''out'' @ ''.tmp'') ''out''"
    and u': "utimensat_fails ?E (''out'' @ ''.tmp'')" "clock ?E (''out'' @ ''.tmp'') = at_time 500 0"
      "access_clock ?E (''out'' @ ''.tmp'') = at_time 499 0"
    by (simp_all add: quiet_def)
  from published_times_mirror_input [OF r st old q] obtain img :: grid and printed fs' where
    a: "doRegion small quiet ?fs ''in'' ''out'' = Some (printed, fs')"
    and b: "if utimensat_fails quiet (''out'' @ ''.tmp'')
         then WarningUtime (''out'' @ ''.tmp'') \<in> set printed
            \<and> fs' ''out'' = Some \<lparr>content = PNG (cells img),
                  mtim = clock quiet (''out'' @ ''.tmp''),
                  atim = access_clock quiet (''out'' @ ''.tmp'')\<rparr>
         else printed = [Generating ''out'' ''in'']
            \<and> fs' ''out'' = Some \<lparr>content = PNG (cells img),
                  mtim = st_mtim \<lparr>st_mtim = at_time 10 5\<rparr>, atim = st_mtim \<lparr>st_mtim = at_time 10 5\<rparr>\<rparr>"
    by blast
  from b u have "printed = [Generating ''out'' ''in'']"
    and "fs' ''out'' = Some \<lparr>content = PNG (cells img), mtim = at_time 10 5, atim = at_time 10 5\<rparr>"
    by simp_all
  with a have one: "\<exists>(img::grid) fs'.
       doRegion small quiet ?fs ''in'' ''out'' = Some ([Generating ''out'' ''in''], fs')
     \<and> fs' ''out'' = Some \<lparr>content = PNG (cells img), mtim = at_time 10 5, atim = at_time 10 5\<rparr>"
    by blast
  from published_times_mirror_input [OF r' st old q'] obtain img' :: grid and printed' fs'' where
    a': "doRegion small ?E ?fs ''in'' ''out'' = Some (printed', fs'')"
    and b': "if utimensat_fails ?E (''out'' @ ''.tmp'')
         then WarningUtime (''out'' @ ''.tmp'') \<in> set printed'
            \<and> fs'' ''out'' = Some \<lparr>content = PNG (cells img'),
                  mtim = clock ?E (''out'' @ ''.tmp''),
                  atim = access_clock ?E (''out'' @ ''.tmp'')\<rparr>
         else printed' = [Generating ''out'' ''in'']
            \<and> fs'' ''out'' = Some \<lparr>content = PNG (cells img'),
                  mtim = st_mtim \<lparr>st_mtim = at_time 10 5\<rparr>, atim = st_mtim \<lparr>st_mtim = at_time 10 5\<rparr>\<rparr>"
    by blast
  from b' u' have "WarningUtime ''out.tmp'' \<in> set printed'"
    and "fs'' ''out'' = Some \<lparr>content = PNG (cells img'), mtim = at_time 500 0, atim = at_time 499 0\<rparr>"
    by simp_all
  with a' have two: "\<exists>(img::grid) printed fs'.
       doRegion small ?E ?fs ''in'' ''out'' = Some (printed, fs')
     \<and> WarningUtime ''out.tmp'' \<in> set printed
     \<and> fs' ''out'' = Some \<lparr>content = PNG (cells img), mtim = at_time 500 0, atim = at_time 499 0\<rparr>"
    by blast
  from one two show ?thesis by blast
qed

section \<open>Properties of main\<close>

text \<open>Every failure that the source tests is reported by a line of its own.\<close>

lemma doRegion_stat_error:
  assumes "stat fs input = None"
  shows "doRegion K E fs input output = Some ([UnableToStat input], fs)"
  using assms by (simp add: doRegion_def)

lemma doRegion_decode_error:
  assumes "slots_in_range K (delivered (visitChunks E input))"
    and "stat fs input = Some instat" "\<not> up_to_date instat (stat fs output)"
    and "thrown (visitChunks E input) = Some what"
  shows "doRegion K E fs input output
     = Some ([Generating output input, FailedToGenerate output what],
             unlink E fs (output @ ''.tmp''))"
proof -
  from compose_in_range [OF assms(1)] assms(4) have
    "compose K (visitChunks E input) = Some (Inl what)" by auto
  with assms(2,3) show ?thesis
    by (simp add: doRegion_def regenerate_def try_block_def)
qed

lemma doRegion_encode_error:
  assumes "slots_in_range K (delivered (visitChunks E input))"
    and "stat fs input = Some instat" "\<not> up_to_date instat (stat fs output)"
    and "thrown (visitChunks E input) = None"
    and "fopen_fails E (output @ ''.tmp'') \<or> png_create_write_struct_fails E (output @ ''.tmp'')
       \<or> png_create_info_struct_fails E (output @ ''.tmp'') \<or> png_write_fails E (output @ ''.tmp'')"
  shows "\<exists>what fs1. doRegion K E fs input output
     = Some ([Generating output input, FailedToGenerate output what],
             unlink E fs1 (output @ ''.tmp''))
     \<and> (\<forall>p. p \<noteq> output @ ''.tmp'' \<longrightarrow> fs1 p = fs p)"
proof -
  from compose_in_range [OF assms(1)] assms(4) obtain img where
    c: "compose K (visitChunks E input) = Some (Inr img)" by auto
  from writePNG_throws [OF assms(5), of fs "cells img"] obtain what fs1 where
    w: "writePNG E fs (output @ ''.tmp'') (cells img) = (Inl what, fs1)"
    and frame: "\<forall>p. p \<noteq> output @ ''.tmp'' \<longrightarrow> fs1 p = fs p"
    by blast
  from assms(2,3) c w have "doRegion K E fs input output
     = Some ([Generating output input, FailedToGenerate output what],
             unlink E fs1 (output @ ''.tmp''))"
    by (simp add: doRegion_def regenerate_def try_block_def)
  with frame show ?thesis by blast
qed

lemma doRegion_rename_error:
  assumes "slots_in_range K (delivered (visitChunks E input))"
    and "stat fs input = Some instat" "\<not> up_to_date instat (stat fs output)"
    and "thrown (visitChunks E input) = None"
    and "\<not> fopen_fails E (output @ ''.tmp'')"
        "\<not> png_create_write_struct_fails E (output @ ''.tmp'')"
        "\<not> png_create_info_struct_fails E (output @ ''.tmp'')"
        "\<not> png_write_fails E (output @ ''.tmp'')"
    and "rename_fails E (output @ ''.tmp'') output"
  shows "\<exists>printed fs'. doRegion K E fs input output = Some (printed, fs')
     \<and> last printed = UnableToSave output \<and> fs' output = fs output
     \<and> (\<not> unlink_fails E (output @ ''.tmp'') \<longrightarrow> fs' (output @ ''.tmp'') = None)"
  using doRegion_written [OF assms(1-8)] assms(9)
  by (auto simp: unlink_def)

lemma readdir_loop_total:
  assumes "\<forall>path. slots_in_range K (delivered (visitChunks E path))"
  shows "\<exists>b' more fs'. readdir_loop K E inputdir outputdir entries (b, printed, fs)
           = Some (b', printed @ more, fs')"
proof (induction entries arbitrary: b printed fs)
  case Nil
  then show ?case by simp
next
  case (Cons d_name rest)
  show ?case
  proof (cases "region_filename d_name")
    case None
    with Cons.IH [of b printed fs] show ?thesis by simp
  next
    case (Some xz)
    obtain x z where xz: "xz = (x, z)" by (cases xz) auto
    from doRegion_total [of K E "input_path inputdir d_name" fs "output_path outputdir d_name"] assms
    obtain lines fs1 where
      run: "doRegion K E fs (input_path inputdir d_name) (output_path outputdir d_name)
              = Some (lines, fs1)"
      by blast
    from Cons.IH [of "track b x z" "printed @ lines" fs1] obtain b' more fs' where
      "readdir_loop K E inputdir outputdir rest (track b x z, printed @ lines, fs1)
         = Some (b', (printed @ lines) @ more, fs')"
      by blast
    with Some xz run show ?thesis by simp
  qed
qed

lemma readdir_loop_append:
  "readdir_loop K E inputdir outputdir (xs @ ys) state =
     (case readdir_loop K E inputdir outputdir xs state of
        None \<Rightarrow> None
      | Some state' \<Rightarrow> readdir_loop K E inputdir outputdir ys state')"
proof (induction xs arbitrary: state)
  case Nil
  then show ?case by simp
next
  case (Cons d_name xs)
  obtain b printed fs where s: "state = (b, printed, fs)" by (cases state) auto
  show ?case
    using Cons.IH by (simp add: s split: option.splits prod.splits)
qed

text \<open>
  Whatever happened to the entries before it, an accepted entry is handed to
  \<^verbatim>\<open>doRegion\<close>, the loop goes on after it, and the exit code is 0.
\<close>

lemma batch_continues:
  assumes "\<forall>path. slots_in_range K (delivered (visitChunks E path))"
    and "3 \<le> length argv"
    and "opendir E (argv ! 1 @ ''/region'') = Some (before @ d_name # after)"
    and "region_filename d_name = Some (x, z)"
  shows "\<exists>b printed fs1 lines fs2 more fs'.
       readdir_loop K E (argv ! 1 @ ''/region'') (argv ! 2) before
         (\<lparr>minX = INT_MAX, maxX = INT_MIN, minZ = INT_MAX, maxZ = INT_MIN\<rparr>, [], fs)
         = Some (b, printed, fs1)
     \<and> doRegion K E fs1 (input_path (argv ! 1 @ ''/region'') d_name)
           (output_path (argv ! 2) d_name) = Some (lines, fs2)
     \<and> main K E fs argv = Some (0, printed @ lines @ more, fs')"
proof -
  let ?in = "argv ! 1 @ ''/region''" and ?out = "argv ! 2"
  let ?b0 = "\<lparr>minX = INT_MAX, maxX = INT_MIN, minZ = INT_MAX, maxZ = INT_MIN\<rparr>"
  from readdir_loop_total [OF assms(1), of ?in ?out before ?b0 "[]" fs] obtain b printed fs1 where
    first: "readdir_loop K E ?in ?out before (?b0, [], fs) = Some (b, printed, fs1)"
    by auto
  from doRegion_total [of K E "input_path ?in d_name" fs1 "output_path ?out d_name"] assms(1)
  obtain lines fs2 where
    run: "doRegion K E fs1 (input_path ?in d_name) (output_path ?out d_name) = Some (lines, fs2)"
    by blast
  from readdir_loop_total [OF assms(1), of ?in ?out after "track b x z" "printed @ lines" fs2]
  obtain b' more fs' where
    last: "readdir_loop K E ?in ?out after (track b x z, printed @ lines, fs2)
             = Some (b', (printed @ lines) @ more, fs')"
    by blast
  have "readdir_loop K E ?in ?out (before @ d_name # after) (?b0, [], fs)
      = Some (b', printed @ lines @ more, fs')"
    using first run last assms(4) by (simp add: readdir_loop_append)
  with assms(2,3) have "main K E fs argv = Some (0, printed @ lines @ more, fs')"
    by (simp add: main_def)
  with first run show ?thesis by blast
qed

lemma batch_in_range: "\<forall>path. slots_in_range small (delivered (visitChunks batch path))"
  by (simp add: batch_def quiet_def slots_in_range_def small_def)

lemma batch_dir:
  "opendir batch ''world/region'' = Some [''.'', ''..'', ''r.0.0.mca'', ''r.1.0.mca'']"
  by (simp add: batch_def)

lemma batch_names:
  "region_filename ''.'' = None" "region_filename ''..'' = None"
  "region_filename ''r.0.0.mca'' = Some (0, 0)" "region_filename ''r.1.0.mca'' = Some (1, 0)"
  by code_simp+

lemma unflushed_first_region:
  "doRegion small unflushed world ''world/region/r.0.0.mca'' ''tiles/r.0.0.png''
     = Some ([Generating ''tiles/r.0.0.png'' ''world/region/r.0.0.mca''],
             world(''tiles/r.0.0.png.tmp'' := None,
                   ''tiles/r.0.0.png'' \<mapsto>
                     \<lparr>content = Incomplete, mtim = at_time 10 0, atim = at_time 10 0\<rparr>))"
proof -
  have r: "slots_in_range small (delivered (visitChunks unflushed ''world/region/r.0.0.mca''))"
    by (simp add: unflushed_def steady_def batch_def quiet_def slots_in_range_def small_def)
  have st: "stat world ''world/region/r.0.0.mca'' = Some \<lparr>st_mtim = at_time 10 0\<rparr>"
    by (simp add: stat_def world_def region_file_def)
  have old: "\<not> up_to_date \<lparr>st_mtim = at_time 10 0\<rparr> (stat world ''tiles/r.0.0.png'')"
    by (simp add: up_to_date_def stat_def world_def)
  have q: "thrown (visitChunks unflushed ''world/region/r.0.0.mca'') = None"
      "\<not> fopen_fails unflushed (''tiles/r.0.0.png'' @ ''.tmp'')"
      "\<not> png_create_write_struct_fails unflushed (''tiles/r.0.0.png'' @ ''.tmp'')"
      "\<not> png_create_info_struct_fails unflushed (''tiles/r.0.0.png'' @ ''.tmp'')"
      "\<not> png_write_fails unflushed (''tiles/r.0.0.png'' @ ''.tmp'')"
    and u: "fclose_fails unflushed (''tiles/r.0.0.png'' @ ''.tmp'')"
      "\<not> utimensat_fails unflushed (''tiles/r.0.0.png'' @ ''.tmp'')"
      "\<not> rename_fails unflushed (''tiles/r.0.0.png'' @ ''.tmp'') ''tiles/r.0.0.png''"
    by (simp_all add: unflushed_def steady_def batch_def quiet_def)
  from doRegion_written [OF r st old q] u show ?thesis
    by simp
qed

lemma unflushed_second_region:
  "doRegion small unflushed
       (world(''tiles/r.0.0.png.tmp'' := None,
              ''tiles/r.0.0.png'' \<mapsto>
                \<lparr>content = Incomplete, mtim = at_time 10 0, atim = at_time 10 0\<rparr>))
       ''world/region/r.1.0.mca'' ''tiles/r.1.0.png''
     = Some ([Generating ''tiles/r.1.0.png'' ''world/region/r.1.0.mca''],
             world(''tiles/r.0.0.png.tmp'' := None,
                   ''tiles/r.0.0.png'' \<mapsto>
                     \<lparr>content = Incomplete, mtim = at_time 10 0, atim = at_time 10 0\<rparr>,
                   ''tiles/r.1.0.png.tmp'' := None,
                   ''tiles/r.1.0.png'' \<mapsto>
                     \<lparr>content = PNG tile, mtim = at_time 20 0, atim = at_time 20 0\<rparr>))"
proof -
  let ?fs = "world(''tiles/r.0.0.png.tmp'' := None,
              ''tiles/r.0.0.png'' \<mapsto>
                \<lparr>content = Incomplete, mtim = at_time 10 0, atim = at_time 10 0\<rparr>)"
  have r: "slots_in_range small (delivered (visitChunks unflushed ''world/region/r.1.0.mca''))"
    by (simp add: unflushed_def steady_def batch_def quiet_def slots_in_range_def small_def)
  have st: "stat ?fs ''world/region/r.1.0.mca'' = Some \<lparr>st_mtim = at_time 20 0\<rparr>"
    by (simp add: stat_def world_def region_file_def)
  have old: "\<not> up_to_date \<lparr>st_mtim = at_time 20 0\<rparr> (stat ?fs ''tiles/r.1.0.png'')"
    by (simp add: up_to_date_def stat_def world_def)
  have q: "thrown (visitChunks unflushed ''world/region/r.1.0.mca'') = None"
      "\<not> fopen_fails unflushed (''tiles/r.1.0.png'' @ ''.tmp'')"
      "\<not> png_create_write_struct_fails unflushed (''tiles/r.1.0.png'' @ ''.tmp'')"
      "\<not> png_create_info_struct_fails unflushed (''tiles/r.1.0.png'' @ ''.tmp'')"
      "\<not> png_write_fails unflushed (''tiles/r.1.0.png'' @ ''.tmp'')"
      "\<not> fclose_fails unflushed (''tiles/r.1.0.png'' @ ''.tmp'')"
    and u: "\<not> utimensat_fails unflushed (''tiles/r.1.0.png'' @ ''.tmp'')"
      "\<not> rename_fails unflushed (''tiles/r.1.0.png'' @ ''.tmp'') ''tiles/r.1.0.png''"
    and v: "visitChunks unflushed ''world/region/r.1.0.mca'' = visitChunks quiet ''world/region/r.1.0.mca''"
    by (simp_all add: unflushed_def steady_def batch_def quiet_def)
  from doRegion_encoded [OF r st old q] obtain img where
    c: "compose small (visitChunks unflushed ''world/region/r.1.0.mca'') = Some (Inr img)"
    and run: "doRegion small unflushed ?fs ''world/region/r.1.0.mca'' ''tiles/r.1.0.png'' =
         Some (Generating ''tiles/r.1.0.png'' ''world/region/r.1.0.mca''
                 # (if utimensat_fails unflushed (''tiles/r.1.0.png'' @ ''.tmp'')
                    then [WarningUtime (''tiles/r.1.0.png'' @ ''.tmp'')] else [])
                 @ (if rename_fails unflushed (''tiles/r.1.0.png'' @ ''.tmp'') ''tiles/r.1.0.png''
                    then [UnableToSave ''tiles/r.1.0.png''] else []),
               if rename_fails unflushed (''tiles/r.1.0.png'' @ ''.tmp'') ''tiles/r.1.0.png''
               then unlink unflushed (?fs(''tiles/r.1.0.png'' @ ''.tmp'' \<mapsto>
                 \<lparr>content = PNG (cells img),
                  mtim = (if utimensat_fails unflushed (''tiles/r.1.0.png'' @ ''.tmp'')
                          then clock unflushed (''tiles/r.1.0.png'' @ ''.tmp'')
                          else st_mtim \<lparr>st_mtim = at_time 20 0\<rparr>),
                  atim = (if utimensat_fails unflushed (''tiles/r.1.0.png'' @ ''.tmp'')
                          then access_clock unflushed (''tiles/r.1.0.png'' @ ''.tmp'')
                          else st_mtim \<lparr>st_mtim = at_time 20 0\<rparr>)\<rparr>))
                 (''tiles/r.1.0.png'' @ ''.tmp'')
               else (?fs(''tiles/r.1.0.png'' @ ''.tmp'' := None))(''tiles/r.1.0.png'' \<mapsto>
                 \<lparr>content = PNG (cells img),
                  mtim = (if utimensat_fails unflushed (''tiles/r.1.0.png'' @ ''.tmp'')
                          then clock unflushed (''tiles/r.1.0.png'' @ ''.tmp'')
                          else st_mtim \<lparr>st_mtim = at_time 20 0\<rparr>),
                  atim = (if utimensat_fails unflushed (''tiles/r.1.0.png'' @ ''.tmp'')
                          then access_clock unflushed (''tiles/r.1.0.png'' @ ''.tmp'')
                          else st_mtim \<lparr>st_mtim = at_time 20 0\<rparr>)\<rparr>))"
    by blast
  from compose_quiet [of "''world/region/r.1.0.mca''"] c v have "cells img = tile" by auto
  with run u show ?thesis by simp
qed

text \<open>
  Claim C5. The claim fails on the code where the final \<^verbatim>\<open>fclose\<close> of \<^verbatim>\<open>writePNG\<close> fails
  for a region: this failure of the encoding is not reported.
  In the batch below it strikes the first region: \<^verbatim>\<open>main\<close> prints the two announcements
  and no error line and exits with 0; the output of the first region holds an incomplete
  image, and the second region is processed and published. (The failures that the source
  tests are reported, see \<open>doRegion_stat_error\<close>, \<open>doRegion_decode_error\<close>,
  \<open>doRegion_encode_error\<close> and \<open>doRegion_rename_error\<close>, and the loop goes on after
  each of them, see \<open>batch_continues\<close>.)
\<close>

theorem main_silent_on_incomplete_image:
  "(case main small unflushed world [''minedmap'', ''world'', ''tiles''] of
      None \<Rightarrow> False
    | Some (code, printed, fs') \<Rightarrow>
        code = 0
        \<and> printed = [Generating ''tiles/r.0.0.png'' ''world/region/r.0.0.mca'',
                      Generating ''tiles/r.1.0.png'' ''world/region/r.1.0.mca'']
        \<and> fs' ''tiles/r.0.0.png''
             = Some \<lparr>content = Incomplete, mtim = at_time 10 0, atim = at_time 10 0\<rparr>
        \<and> fs' ''tiles/r.1.0.png''
             = Some \<lparr>content = PNG tile, mtim = at_time 20 0, atim = at_time 20 0\<rparr>)"
proof -
  have dir: "opendir unflushed ''world/region''
      = Some [''.'', ''..'', ''r.0.0.mca'', ''r.1.0.mca'']"
    by (simp add: unflushed_def steady_def batch_def)
  have "main small unflushed world [''minedmap'', ''world'', ''tiles'']
      = Some (0, [Generating ''tiles/r.0.0.png'' ''world/region/r.0.0.mca'',
                  Generating ''tiles/r.1.0.png'' ''world/region/r.1.0.mca''],
              world(''tiles/r.0.0.png.tmp'' := None,
                   ''tiles/r.0.0.png'' \<mapsto>
                     \<lparr>content = Incomplete, mtim = at_time 10 0, atim = at_time 10 0\<rparr>,
                   ''tiles/r.1.0.png.tmp'' := None,
                   ''tiles/r.1.0.png'' \<mapsto>
                     \<lparr>content = PNG tile, mtim = at_time 20 0, atim = at_time 20 0\<rparr>))"
    by (simp add: main_def dir batch_names input_path_def output_path_def
          unflushed_first_region unflushed_second_region)
  then show ?thesis by simp
qed

text \<open>Once the directory is open, \<^verbatim>\<open>main\<close> returns 0 whatever happens to the regions.\<close>

lemma main_returns:
  assumes "\<forall>path. slots_in_range K (delivered (visitChunks E path))"
    and "3 \<le> length argv"
    and "opendir E (argv ! 1 @ ''/region'') = Some entries"
  shows "\<exists>printed fs'. main K E fs argv = Some (0, printed, fs')"
proof -
  from readdir_loop_total [OF assms(1), of "argv ! 1 @ ''/region''" "argv ! 2" entries
      "\<lparr>minX = INT_MAX, maxX = INT_MIN, minZ = INT_MAX, maxZ = INT_MIN\<rparr>" "[]" fs]
  obtain b' more fs' where
    "readdir_loop K E (argv ! 1 @ ''/region'') (argv ! 2) entries
       (\<lparr>minX = INT_MAX, maxX = INT_MIN, minZ = INT_MAX, maxZ = INT_MIN\<rparr>, [], fs)
       = Some (b', more, fs')"
    by auto
  with assms(2,3) show ?thesis by (simp add: main_def)
qed

text \<open>
  Claim C6, as stated, fails: with a third argument after the output directory the
  argument count is wrong for the command line
  \<^verbatim>\<open><program> <data-directory> <output-directory>\<close>, the directory can be opened, and
  \<^verbatim>\<open>main\<close> runs the batch and exits with 0.
\<close>

theorem main_exit_code_counterexample:
  "wrong_argument_count [''minedmap'', ''world'', ''tiles'', ''more'']
   \<and> opendir batch ([''minedmap'', ''world'', ''tiles'', ''more''] ! 1 @ ''/region'') \<noteq> None
   \<and> map_option fst (main small batch world [''minedmap'', ''world'', ''tiles'', ''more''])
       = Some 0"
proof -
  have dir: "opendir batch ([''minedmap'', ''world'', ''tiles'', ''more''] ! 1 @ ''/region'')
      = Some [''.'', ''..'', ''r.0.0.mca'', ''r.1.0.mca'']"
    by (simp add: batch_def)
  have len: "3 \<le> length [''minedmap'', ''world'', ''tiles'', ''more'']"
    by simp
  from main_returns [OF batch_in_range len dir, of world] obtain printed fs' where
    "main small batch world [''minedmap'', ''world'', ''tiles'', ''more'']
       = Some (0, printed, fs')"
    by blast
  then have "map_option fst (main small batch world [''minedmap'', ''world'', ''tiles'', ''more''])
       = Some 0"
    by simp
  with dir show ?thesis by (simp add: wrong_argument_count_def)
qed

text \<open>
  Claim C6, amended. \<^verbatim>\<open>main\<close> returns, and its exit code is 1 exactly when fewer than
  two arguments are given, which \<^verbatim>\<open>main\<close> tests as \<^verbatim>\<open>argc < 3\<close>, or the directory
  \<^verbatim>\<open>region\<close> under the first argument cannot be opened; in every other case it is 0,
  whatever happens to the regions. Arguments after the second are ignored.
\<close>

theorem main_exit_code:
  assumes "\<forall>path. slots_in_range K (delivered (visitChunks E path))"
  shows "\<exists>code printed fs'. main K E fs argv = Some (code, printed, fs')
     \<and> code = (if length argv < 3 \<or> opendir E (argv ! 1 @ ''/region'') = None then 1 else 0)"
proof (cases "length argv < 3")
  case True
  then show ?thesis by (simp add: main_def)
next
  case False
  show ?thesis
  proof (cases "opendir E (argv ! 1 @ ''/region'')")
    case None
    with False show ?thesis by (simp add: main_def)
  next
    case (Some entries)
    from False have "3 \<le> length argv" by simp
    from main_returns [OF assms this Some, of fs] False Some show ?thesis by auto
  qed
qed

theorem main_exit_code_witness:
  "(\<forall>path. slots_in_range small (delivered (visitChunks batch path)))
   \<and> (\<exists>printed fs'. main small batch world [''minedmap'', ''world'', ''tiles'']
          = Some (0, printed, fs'))
   \<and> (\<exists>printed fs'. main small batch world [''minedmap'', ''elsewhere'', ''tiles'']
          = Some (1, printed, fs'))
   \<and> (\<exists>printed fs'. main small batch world [''minedmap'', ''world'']
          = Some (1, printed, fs'))
   \<and> (\<exists>printed fs'. main small batch world [''minedmap'', ''world'', ''tiles'', ''more'']
          = Some (0, printed, fs'))"
proof -
  have dir: "opendir batch ([''minedmap'', ''world'', ''tiles''] ! 1 @ ''/region'') \<noteq> None"
    and no_dir: "opendir batch ([''minedmap'', ''elsewhere'', ''tiles''] ! 1 @ ''/region'') = None"
    and dir4: "opendir batch ([''minedmap'', ''world'', ''tiles'', ''more''] ! 1 @ ''/region'')
       \<noteq> None"
    by (simp_all add: batch_def)
  from main_exit_code [OF batch_in_range, of world "[''minedmap'', ''world'', ''tiles'']"] dir
  have one: "\<exists>printed fs'. main small batch world [''minedmap'', ''world'', ''tiles'']
          = Some (0, printed, fs')"
    by auto
  from main_exit_code [OF batch_in_range, of world "[''minedmap'', ''elsewhere'', ''tiles'']"] no_dir
  have two: "\<exists>printed fs'. main small batch world [''minedmap'', ''elsewhere'', ''tiles'']
          = Some (1, printed, fs')"
    by auto
  from main_exit_code [OF batch_in_range, of world "[''minedmap'', ''world'']"]
  have three: "\<exists>printed fs'. main small batch world [''minedmap'', ''world'']
          = Some (1, printed, fs')"
    by auto
  from main_exit_code [OF batch_in_range, of world "[''minedmap'', ''world'', ''tiles'', ''more'']"]
    dir4
  have four: "\<exists>printed fs'. main small batch world [''minedmap'', ''world'', ''tiles'', ''more'']
          = Some (0, printed, fs')"
    by auto
  from batch_in_range one two three four show ?thesis by blast
qed

section \<open>Properties of the file name test\<close>

lemma region_filename_prefix:
  "region_filename d_name = Some (x, z)
     \<longleftrightarrow> sscanf_region d_name = Some (x, z) \<and> take (length d_name) (format_region x z) = d_name"
  by (auto simp: region_filename_def snprintf_def Let_def split: option.splits)

lemma exact_region_filename_accepted:
  "exact_region_filename d_name = Some (x, z) \<Longrightarrow> region_filename d_name = Some (x, z)"
  by (auto simp: region_filename_prefix exact_region_filename_def split: option.splits if_splits)

lemma region_filename_examples:
  "region_filename ''r.01.2.mca'' = None"
  "region_filename ''r.-5.10.mca'' = Some (- 5, 10)"
  "exact_region_filename ''r.01.2.mca'' = None"
  "exact_region_filename ''r.-5.10.mca'' = Some (- 5, 10)"
  by code_simp+

section \<open>Running the batch twice\<close>

lemma doRegion_fresh:
  assumes "fresh fs input output"
  shows "doRegion K E fs input output = Some ([UpToDate output], fs)"
  using assms by (auto simp: fresh_def doRegion_def split: option.splits)

lemma stamp_less:
  "\<not> up_to_date instat (Some outstat) \<longleftrightarrow> stamp (st_mtim outstat) < stamp (st_mtim instat)"
  by (auto simp: up_to_date_def stamp_def)

lemma fresh_stamp:
  "fresh fs input output
     \<longleftrightarrow> (\<exists>fi fo. fs input = Some fi \<and> fs output = Some fo \<and> stamp (mtim fi) \<le> stamp (mtim fo))"
  by (auto simp: fresh_def stat_def up_to_date_stamp split: option.splits)

lemma doRegion_calm:
  assumes "doRegion K E fs input output = Some (lines, fs')" "list_all calm lines"
  shows "fs' = fs \<and> fresh fs input output
     \<or> (\<exists>fi written. fs input = Some fi
            \<and> (\<forall>fo. fs output = Some fo \<longrightarrow> stamp (mtim fo) < stamp (mtim fi))
            \<and> fs' = (fs(output @ ''.tmp'' := None))(output \<mapsto>
                 \<lparr>content = written, mtim = mtim fi, atim = mtim fi\<rparr>))"
proof (cases "stat fs input")
  case None
  with assms show ?thesis by (auto simp: doRegion_def)
next
  case (Some instat)
  then obtain fi where fi: "fs input = Some fi" "instat = \<lparr>st_mtim = mtim fi\<rparr>"
    by (auto simp: stat_def split: option.splits)
  show ?thesis
  proof (cases "up_to_date instat (stat fs output)")
    case True
    with Some assms show ?thesis by (auto simp: doRegion_def fresh_def)
  next
    case False
    then have older: "\<forall>fo. fs output = Some fo \<longrightarrow> stamp (mtim fo) < stamp (mtim fi)"
      using fi by (auto simp: stat_def stamp_less)
    from False Some assms(1) have
      run: "regenerate K E fs instat input output = Some (lines, fs')"
      by (simp add: doRegion_def)
    let ?tmp = "output @ ''.tmp''"
    from run assms(2) obtain data fs1 where
      "writePNG E fs ?tmp data = (Inr (), fs1)"
      and "\<not> utimensat_fails E ?tmp" "\<not> rename_fails E ?tmp output"
      and fs': "fs' = rename (utimensat fs1 ?tmp (st_mtim instat) (st_mtim instat)) ?tmp output"
      by (auto simp: regenerate_def try_block_def Let_def
            split: option.splits sum.splits prod.splits if_splits)
    then have "\<exists>written. fs1 = fs(?tmp \<mapsto>
        \<lparr>content = written, mtim = clock E ?tmp, atim = access_clock E ?tmp\<rparr>)"
      by (auto simp: writePNG_def Let_def split: if_splits)
    then obtain written where "fs1 = fs(?tmp \<mapsto>
        \<lparr>content = written, mtim = clock E ?tmp, atim = access_clock E ?tmp\<rparr>)"
      by blast
    with fs' fi have "fs' = (fs(?tmp := None))(output \<mapsto>
        \<lparr>content = written, mtim = mtim fi, atim = mtim fi\<rparr>)"
      by (simp add: rename_def utimensat_def)
    with fi older show ?thesis by blast
  qed
qed

lemma digit_char_cases:
  assumes "d < 10"
  shows "digit_char d \<in> set ''0123456789''"
proof -
  have "length ''0123456789'' = 10" by simp
  with assms have "d < length ''0123456789''" by simp
  then show ?thesis
    unfolding digit_char_def by (rule nth_mem)
qed

lemma set_decimal: "set (decimal n) \<subseteq> set ''0123456789''"
proof -
  define D where "D = set ''0123456789''"
  have digit: "digit_char d \<in> D" if "d < 10" for d
    unfolding D_def using that by (rule digit_char_cases)
  have "set (decimal n) \<subseteq> D"
  proof (induction n rule: decimal.induct)
    case (1 n)
    show ?case
    proof (cases "n < 10")
      case True
      then have "decimal n = [digit_char n]"
        by (subst decimal.simps) simp
      with digit [OF True] show ?thesis
        by simp
    next
      case False
      then have "decimal n = decimal (n div 10) @ [digit_char (n mod 10)]"
        by (subst decimal.simps) simp
      moreover have "digit_char (n mod 10) \<in> D"
        by (rule digit) simp
      moreover note "1.IH" [OF False]
      ultimately show ?thesis
        by simp
    qed
  qed
  then show ?thesis by (simp only: D_def)
qed

lemma set_format_region: "set (format_region x z) \<subseteq> set ''r.-0123456789mca''"
proof -
  define A where "A = set ''r.-0123456789mca''"
  have digits: "set ''0123456789'' \<subseteq> A"
    unfolding A_def by simp
  have fixed: "CHR ''r'' \<in> A" "CHR ''.'' \<in> A" "CHR ''-'' \<in> A"
      "CHR ''m'' \<in> A" "CHR ''c'' \<in> A" "CHR ''a'' \<in> A"
    unfolding A_def by simp_all
  have dec: "set (decimal n) \<subseteq> A" for n
    using set_decimal [of n] digits by (rule subset_trans)
  have "set (format_i i) \<subseteq> A" for i
    using dec [of "nat (- i)"] dec [of "nat i"] fixed(3)
    by (simp add: format_i_def)
  from this [of x] this [of z] fixed have "set (format_region x z) \<subseteq> A"
    by (simp add: format_region_def)
  then show ?thesis by (simp only: A_def)
qed

lemma accepted_last:
  assumes "accepted d_name"
  shows "d_name \<noteq> [] \<and> last d_name \<noteq> CHR ''g'' \<and> last d_name \<noteq> CHR ''p''"
proof -
  define A where "A = set ''r.-0123456789mca''"
  have out: "CHR ''g'' \<notin> A" "CHR ''p'' \<notin> A"
    unfolding A_def by simp_all
  from assms obtain x z where acc: "region_filename d_name = Some (x, z)"
    by (auto simp: accepted_def)
  then have scan: "sscanf_region d_name = Some (x, z)"
    and pre: "take (length d_name) (format_region x z) = d_name"
    by (simp_all add: region_filename_prefix)
  from scan have ne: "d_name \<noteq> []"
    by (auto simp: sscanf_region_def match_char_def)
  have "set (take (length d_name) (format_region x z)) \<subseteq> set (format_region x z)"
    by (rule set_take_subset)
  with pre have "set d_name \<subseteq> set (format_region x z)"
    by simp
  from this set_format_region [of x z] have "set d_name \<subseteq> A"
    unfolding A_def by (rule subset_trans)
  moreover from ne have "last d_name \<in> set d_name" by simp
  ultimately have mem: "last d_name \<in> A" by (rule subsetD)
  from mem out(1) have "last d_name \<noteq> CHR ''g''" by auto
  moreover from mem out(2) have "last d_name \<noteq> CHR ''p''" by auto
  ultimately show ?thesis using ne by simp
qed

lemma last_paths:
  "d_name \<noteq> [] \<Longrightarrow> last (input_path inputdir d_name) = last d_name"
  "last (output_path outputdir d_name) = CHR ''g''"
  "last (output_path outputdir d_name @ ''.tmp'') = CHR ''p''"
  by (simp_all add: input_path_def output_path_def)

lemma paths_apart:
  assumes "accepted d_name"
  shows "input_path inputdir d_name \<noteq> output_path outputdir e_name"
    and "input_path inputdir d_name \<noteq> output_path outputdir e_name @ ''.tmp''"
    and "output_path outputdir d_name \<noteq> output_path outputdir e_name @ ''.tmp''"
proof -
  from accepted_last [OF assms] have l: "last (input_path inputdir d_name) \<noteq> CHR ''g''"
    "last (input_path inputdir d_name) \<noteq> CHR ''p''"
    by (simp_all add: last_paths)
  show "input_path inputdir d_name \<noteq> output_path outputdir e_name"
  proof
    assume "input_path inputdir d_name = output_path outputdir e_name"
    then have "last (input_path inputdir d_name) = last (output_path outputdir e_name)"
      by (rule arg_cong)
    with l(1) show False by (simp only: last_paths(2)) simp
  qed
  show "input_path inputdir d_name \<noteq> output_path outputdir e_name @ ''.tmp''"
  proof
    assume "input_path inputdir d_name = output_path outputdir e_name @ ''.tmp''"
    then have "last (input_path inputdir d_name) = last (output_path outputdir e_name @ ''.tmp'')"
      by (rule arg_cong)
    with l(2) show False by (simp only: last_paths(3)) simp
  qed
  show "output_path outputdir d_name \<noteq> output_path outputdir e_name @ ''.tmp''"
  proof
    assume "output_path outputdir d_name = output_path outputdir e_name @ ''.tmp''"
    then have "last (output_path outputdir d_name) = last (output_path outputdir e_name @ ''.tmp'')"
      by (rule arg_cong)
    then show False by (simp only: last_paths) simp
  qed
qed

lemma readdir_loop_grows:
  "readdir_loop K E inputdir outputdir entries (b, printed, fs) = Some (b', printed', fs')
     \<Longrightarrow> \<exists>more. printed' = printed @ more"
proof (induction entries arbitrary: b printed fs)
  case Nil
  then show ?case by simp
next
  case (Cons d_name rest)
  show ?case
  proof (cases "region_filename d_name")
    case None
    with Cons show ?thesis by simp
  next
    case (Some xz)
    obtain x z where xz: "xz = (x, z)" by (cases xz) auto
    from Cons.prems Some xz obtain lines fs1 where
      "readdir_loop K E inputdir outputdir rest (track b x z, printed @ lines, fs1)
         = Some (b', printed', fs')"
      by (auto split: option.splits)
    from Cons.IH [OF this] show ?thesis by auto
  qed
qed

lemma doRegion_keeps_fresh:
  assumes run: "doRegion K E fs (input_path inputdir d_name) (output_path outputdir d_name)
                  = Some (lines, fs')"
    and calm: "list_all calm lines"
    and d: "accepted d_name"
    and e: "accepted e_name" "fresh fs (input_path inputdir e_name) (output_path outputdir e_name)"
  shows "fresh fs' (input_path inputdir d_name) (output_path outputdir d_name)"
    and "fresh fs' (input_path inputdir e_name) (output_path outputdir e_name)"
proof -
  let ?i = "input_path inputdir d_name" and ?o = "output_path outputdir d_name"
  let ?i' = "input_path inputdir e_name" and ?o' = "output_path outputdir e_name"
  note apart = paths_apart [OF d] paths_apart [OF e(1)]
  from doRegion_calm [OF run calm] consider
      (same) "fs' = fs" "fresh fs ?i ?o"
    | (published) fi written where "fs ?i = Some fi"
        "\<forall>fo. fs ?o = Some fo \<longrightarrow> stamp (mtim fo) < stamp (mtim fi)"
        "fs' = (fs(?o @ ''.tmp'' := None))(?o \<mapsto> \<lparr>content = written, mtim = mtim fi, atim = mtim fi\<rparr>)"
    by blast
  then have "fresh fs' ?i ?o \<and> fresh fs' ?i' ?o'"
  proof cases
    case same
    with e(2) show ?thesis by simp
  next
    case published
    have one: "fresh fs' ?i ?o"
      using published(1,3) apart(1,2) by (simp add: fresh_stamp)
    from e(2) obtain fi' fo' where old: "fs ?i' = Some fi'" "fs ?o' = Some fo'"
        "stamp (mtim fi') \<le> stamp (mtim fo')"
      by (auto simp: fresh_stamp)
    have two: "fresh fs' ?i' ?o'"
    proof (cases "?o' = ?o")
      case True
      with old published(2) have "stamp (mtim fi') < stamp (mtim fi)"
        by auto
      with True published(3) old(1) apart(4,5) show ?thesis
        by (simp add: fresh_stamp)
    next
      case False
      with published(3) old apart(4,5,6) show ?thesis
        by (simp add: fresh_stamp)
    qed
    from one two show ?thesis ..
  qed
  then show "fresh fs' ?i ?o" and "fresh fs' ?i' ?o'" by simp_all
qed

lemma readdir_loop_calm:
  assumes "readdir_loop K E inputdir outputdir entries (b, printed, fs) = Some (b', printed @ added, fs')"
    and "list_all calm added"
    and "\<forall>d \<in> S. accepted d \<and> fresh fs (input_path inputdir d) (output_path outputdir d)"
  shows "\<forall>d \<in> S \<union> {d \<in> set entries. accepted d}.
           fresh fs' (input_path inputdir d) (output_path outputdir d)"
  using assms
proof (induction entries arbitrary: b printed fs added S)
  case Nil
  then show ?case by simp
next
  case (Cons d_name rest)
  show ?case
  proof (cases "region_filename d_name")
    case None
    then have "\<not> accepted d_name" by (simp add: accepted_def)
    moreover from Cons.prems(1) None have
      "readdir_loop K E inputdir outputdir rest (b, printed, fs) = Some (b', printed @ added, fs')"
      by simp
    from Cons.IH [OF this Cons.prems(2,3)] have
      "\<forall>d \<in> S \<union> {d \<in> set rest. accepted d}.
           fresh fs' (input_path inputdir d) (output_path outputdir d)" .
    ultimately show ?thesis by auto
  next
    case (Some xz)
    then have acc: "accepted d_name" by (simp add: accepted_def)
    obtain x z where xz: "xz = (x, z)" by (cases xz) auto
    let ?i = "input_path inputdir d_name" and ?o = "output_path outputdir d_name"
    from Cons.prems(1) Some xz obtain lines fs1 where
      run: "doRegion K E fs ?i ?o = Some (lines, fs1)"
      and rest: "readdir_loop K E inputdir outputdir rest (track b x z, printed @ lines, fs1)
         = Some (b', printed @ added, fs')"
      by (auto split: option.splits)
    from readdir_loop_grows [OF rest] obtain added' where
      added: "added = lines @ added'" by auto
    with Cons.prems(2) have calm: "list_all calm lines" "list_all calm added'"
      by simp_all
    have here: "fresh fs1 ?i ?o"
    proof -
      from doRegion_calm [OF run calm(1)] consider
          "fs1 = fs" "fresh fs ?i ?o"
        | fi written where "fs ?i = Some fi"
            "fs1 = (fs(?o @ ''.tmp'' := None))(?o \<mapsto>
               \<lparr>content = written, mtim = mtim fi, atim = mtim fi\<rparr>)"
        by blast
      then show ?thesis
      proof cases
        case 1
        then show ?thesis by simp
      next
        case 2
        with paths_apart [OF acc] show ?thesis
          by (simp add: fresh_stamp)
      qed
    qed
    have others: "\<forall>d \<in> S. accepted d \<and> fresh fs1 (input_path inputdir d) (output_path outputdir d)"
      using doRegion_keeps_fresh(2) [OF run calm(1) acc] Cons.prems(3) by blast
    from rest added have rest': "readdir_loop K E inputdir outputdir rest
        (track b x z, printed @ lines, fs1) = Some (b', (printed @ lines) @ added', fs')"
      by simp
    from here others acc have
      "\<forall>d \<in> insert d_name S. accepted d \<and> fresh fs1 (input_path inputdir d) (output_path outputdir d)"
      by simp
    from Cons.IH [OF rest' calm(2) this] show ?thesis
      by auto
  qed
qed

lemma readdir_loop_fresh:
  assumes "\<forall>d \<in> set entries. accepted d \<longrightarrow> fresh fs (input_path inputdir d) (output_path outputdir d)"
  shows "\<exists>b'. readdir_loop K E inputdir outputdir entries (b, printed, fs)
     = Some (b', printed @ map (\<lambda>d. UpToDate (output_path outputdir d)) (filter accepted entries), fs)"
  using assms
proof (induction entries arbitrary: b printed)
  case Nil
  then show ?case by simp
next
  case (Cons d_name rest)
  show ?case
  proof (cases "region_filename d_name")
    case None
    then have "\<not> accepted d_name" by (simp add: accepted_def)
    with Cons.IH [of b printed] Cons.prems None show ?thesis by simp
  next
    case (Some xz)
    then have acc: "accepted d_name" by (simp add: accepted_def)
    obtain x z where xz: "xz = (x, z)" by (cases xz) auto
    from Cons.prems acc have "fresh fs (input_path inputdir d_name) (output_path outputdir d_name)"
      by simp
    from doRegion_fresh [OF this] have
      run: "doRegion K E fs (input_path inputdir d_name) (output_path outputdir d_name)
              = Some ([UpToDate (output_path outputdir d_name)], fs)" .
    from Cons.IH [of "track b x z" "printed @ [UpToDate (output_path outputdir d_name)]"] Cons.prems
    obtain b' where "readdir_loop K E inputdir outputdir rest
        (track b x z, printed @ [UpToDate (output_path outputdir d_name)], fs)
      = Some (b', (printed @ [UpToDate (output_path outputdir d_name)])
                    @ map (\<lambda>d. UpToDate (output_path outputdir d)) (filter accepted rest), fs)"
      by auto
    with Some xz run acc show ?thesis by simp
  qed
qed

lemma published_then_fresh:
  assumes "doRegion K E fsa input output = Some ([Generating output input], fsb)"
    and "input \<noteq> output @ ''.tmp''"
    and "fsc input = fsb input" "fsc output = fsb output"
  shows "fresh fsc input output"
proof -
  have "list_all calm [Generating output input]" by simp
  from doRegion_calm [OF assms(1) this] consider
      "fresh fsa input output"
    | fi written where "fsa input = Some fi"
        "\<forall>fo. fsa output = Some fo \<longrightarrow> stamp (mtim fo) < stamp (mtim fi)"
        "fsb = (fsa(output @ ''.tmp'' := None))(output \<mapsto>
           \<lparr>content = written, mtim = mtim fi, atim = mtim fi\<rparr>)"
    by blast
  then show ?thesis
  proof cases
    case 1
    from doRegion_fresh [OF this, of K E] assms(1) show ?thesis by simp
  next
    case 2
    from 2(1,2) have "input \<noteq> output" by auto
    with 2(1,3) assms(2) have "fsb input = Some fi"
      "fsb output = Some \<lparr>content = written, mtim = mtim fi, atim = mtim fi\<rparr>"
      by simp_all
    with assms(3,4) show ?thesis
      by (simp add: fresh_stamp)
  qed
qed

lemma steady_dir:
  "opendir steady ''world/region'' = Some [''.'', ''..'', ''r.0.0.mca'', ''r.1.0.mca'']"
  by (simp add: steady_def batch_def)

lemma doRegion_no_failure:
  assumes "fs input = Some fi" "fs output = None"
    and "E = steady \<or> E = quiet \<or> E = stray"
  shows "\<exists>img :: grid. doRegion small E fs input output
     = Some ([Generating output input],
             (fs(output @ ''.tmp'' := None))(output \<mapsto>
                \<lparr>content = PNG (cells img), mtim = mtim fi, atim = mtim fi\<rparr>))"
proof -
  have r: "slots_in_range small (delivered (visitChunks E input))"
    using assms(3) by (auto simp: steady_def batch_def stray_def quiet_def slots_in_range_def small_def)
  have st: "stat fs input = Some \<lparr>st_mtim = mtim fi\<rparr>"
    using assms(1) by (simp add: stat_def)
  have old: "\<not> up_to_date \<lparr>st_mtim = mtim fi\<rparr> (stat fs output)"
    using assms(2) by (simp add: up_to_date_def stat_def)
  have q: "thrown (visitChunks E input) = None"
      "\<not> fopen_fails E (output @ ''.tmp'')"
      "\<not> png_create_write_struct_fails E (output @ ''.tmp'')"
      "\<not> png_create_info_struct_fails E (output @ ''.tmp'')"
      "\<not> png_write_fails E (output @ ''.tmp'')"
      "\<not> fclose_fails E (output @ ''.tmp'')"
    and u: "\<not> rename_fails E (output @ ''.tmp'') output"
      "\<not> utimensat_fails E (output @ ''.tmp'')"
    using assms(3) by (auto simp: steady_def batch_def stray_def quiet_def)
  from doRegion_encoded [OF r st old q] u show ?thesis
    by simp blast
qed

text \<open>
  Claim C8. If in a run of the batch every line printed is calm (every region was either
  up to date or published without a warning, its times set to the input's), then a
  second run on the file system the first one left, reading the same directory in any
  environment, prints one up-to-date line for every accepted entry and nothing else,
  changes no file and exits with 0: nothing is visited or encoded again. Region by
  region: once \<^verbatim>\<open>doRegion\<close> has published an output with its times set, a later call on
  a file system that holds the same input and output classifies it as up to date and
  changes nothing.
\<close>

theorem second_run_up_to_date:
  "(main K E1 fs argv = Some (code, printed1, fs1) \<and> list_all calm printed1
      \<and> opendir E2 (argv ! 1 @ ''/region'') = opendir E1 (argv ! 1 @ ''/region'')
    \<longrightarrow> (\<exists>entries. opendir E1 (argv ! 1 @ ''/region'') = Some entries
          \<and> main K E2 fs1 argv
              = Some (0, map (\<lambda>d. UpToDate (output_path (argv ! 2) d)) (filter accepted entries),
                      fs1)))
   \<and> (doRegion K E fsa input output = Some ([Generating output input], fsb)
      \<and> input \<noteq> output @ ''.tmp'' \<and> fsc input = fsb input \<and> fsc output = fsb output
    \<longrightarrow> doRegion K E2 fsc input output = Some ([UpToDate output], fsc))"
proof (intro conjI impI)
  assume "doRegion K E fsa input output = Some ([Generating output input], fsb)
      \<and> input \<noteq> output @ ''.tmp'' \<and> fsc input = fsb input \<and> fsc output = fsb output"
  then have "fresh fsc input output"
    using published_then_fresh [of K E fsa input "output" fsb fsc] by blast
  then show "doRegion K E2 fsc input output = Some ([UpToDate output], fsc)"
    by (rule doRegion_fresh)
next
  let ?in = "argv ! 1 @ ''/region''" and ?out = "argv ! 2"
  let ?b0 = "\<lparr>minX = INT_MAX, maxX = INT_MIN, minZ = INT_MAX, maxZ = INT_MIN\<rparr>"
  assume a: "main K E1 fs argv = Some (code, printed1, fs1) \<and> list_all calm printed1
      \<and> opendir E2 ?in = opendir E1 ?in"
  then have run1: "main K E1 fs argv = Some (code, printed1, fs1)"
    and calm: "list_all calm printed1" and same: "opendir E2 ?in = opendir E1 ?in"
    by simp_all
  from run1 calm have len: "\<not> length argv < 3"
    by (auto simp: main_def)
  from run1 calm len obtain entries where dir: "opendir E1 ?in = Some entries"
    by (cases "opendir E1 ?in") (auto simp: main_def)
  from run1 len dir obtain b where
    loop1: "readdir_loop K E1 ?in ?out entries (?b0, [], fs) = Some (b, [] @ printed1, fs1)"
    by (auto simp: main_def split: option.splits)
  have "\<forall>d \<in> {} \<union> {d \<in> set entries. accepted d}.
           fresh fs1 (input_path ?in d) (output_path ?out d)"
    by (rule readdir_loop_calm [OF loop1 calm]) simp
  then have "\<forall>d \<in> set entries. accepted d \<longrightarrow> fresh fs1 (input_path ?in d) (output_path ?out d)"
    by simp
  from readdir_loop_fresh [OF this, of K E2 ?b0 "[]"] obtain b' where
    "readdir_loop K E2 ?in ?out entries (?b0, [], fs1)
       = Some (b', map (\<lambda>d. UpToDate (output_path ?out d)) (filter accepted entries), fs1)"
    by auto
  with len dir same have "main K E2 fs1 argv
      = Some (0, map (\<lambda>d. UpToDate (output_path ?out d)) (filter accepted entries), fs1)"
    by (simp add: main_def)
  with dir show "\<exists>entries. opendir E1 ?in = Some entries
          \<and> main K E2 fs1 argv
              = Some (0, map (\<lambda>d. UpToDate (output_path ?out d)) (filter accepted entries), fs1)"
    by simp
qed

theorem second_run_up_to_date_witness:
  "(\<exists>printed1 fs1.
       main small steady world [''minedmap'', ''world'', ''tiles''] = Some (0, printed1, fs1)
     \<and> list_all calm printed1
     \<and> opendir batch ([''minedmap'', ''world'', ''tiles''] ! 1 @ ''/region'')
         = opendir steady ([''minedmap'', ''world'', ''tiles''] ! 1 @ ''/region'')
     \<and> main small batch fs1 [''minedmap'', ''world'', ''tiles'']
         = Some (0, [UpToDate ''tiles/r.0.0.png'', UpToDate ''tiles/r.1.0.png''], fs1))
   \<and> (\<exists>fsb.
       doRegion small quiet (Map.empty(''in'' \<mapsto> region_file 10 5)) ''in'' ''out''
         = Some ([Generating ''out'' ''in''], fsb)
     \<and> ''in'' \<noteq> ''out'' @ ''.tmp''
     \<and> doRegion small batch fsb ''in'' ''out'' = Some ([UpToDate ''out''], fsb))"
proof -
  let ?argv = "[''minedmap'', ''world'', ''tiles'']"
  let ?fsa = "Map.empty(''in'' \<mapsto> region_file 10 5)"
  have same: "opendir batch (?argv ! 1 @ ''/region'') = opendir steady (?argv ! 1 @ ''/region'')"
    by (simp add: steady_def batch_def)
  from doRegion_no_failure [of world "''world/region/r.0.0.mca''" "region_file 10 0"
      "''tiles/r.0.0.png''" steady]
  obtain img0 :: grid where
    d0: "doRegion small steady world ''world/region/r.0.0.mca'' ''tiles/r.0.0.png''
       = Some ([Generating ''tiles/r.0.0.png'' ''world/region/r.0.0.mca''],
               (world(''tiles/r.0.0.png.tmp'' := None))(''tiles/r.0.0.png'' \<mapsto>
                  \<lparr>content = PNG (cells img0), mtim = at_time 10 0, atim = at_time 10 0\<rparr>))"
    by (auto simp: world_def region_file_def)
  let ?fs0 = "(world(''tiles/r.0.0.png.tmp'' := None))(''tiles/r.0.0.png'' \<mapsto>
                  \<lparr>content = PNG (cells img0), mtim = at_time 10 0, atim = at_time 10 0\<rparr>)"
  from doRegion_no_failure [of ?fs0 "''world/region/r.1.0.mca''" "region_file 20 0"
      "''tiles/r.1.0.png''" steady]
  obtain fs1 where
    d1: "doRegion small steady ?fs0 ''world/region/r.1.0.mca'' ''tiles/r.1.0.png''
       = Some ([Generating ''tiles/r.1.0.png'' ''world/region/r.1.0.mca''], fs1)"
    by (auto simp: world_def region_file_def)
  have run1: "main small steady world ?argv
      = Some (0, [Generating ''tiles/r.0.0.png'' ''world/region/r.0.0.mca'',
                  Generating ''tiles/r.1.0.png'' ''world/region/r.1.0.mca''], fs1)"
    using d0 d1
    by (simp add: main_def steady_dir batch_names input_path_def output_path_def)
  have calm1: "list_all calm [Generating ''tiles/r.0.0.png'' ''world/region/r.0.0.mca'',
                  Generating ''tiles/r.1.0.png'' ''world/region/r.1.0.mca'']"
    by simp
  from doRegion_no_failure [of ?fsa "''in''" "region_file 10 5" "''out''" quiet]
  obtain fsb where
    da: "doRegion small quiet ?fsa ''in'' ''out'' = Some ([Generating ''out'' ''in''], fsb)"
    by auto
  have apart: "''in'' \<noteq> ''out'' @ ''.tmp''" by simp
  note inst = second_run_up_to_date [of small steady world ?argv 0 _ fs1 batch
      quiet ?fsa "''in''" "''out''" fsb fsb]
  from inst run1 calm1 same have "\<exists>entries. opendir steady (?argv ! 1 @ ''/region'') = Some entries
      \<and> main small batch fs1 ?argv
          = Some (0, map (\<lambda>d. UpToDate (output_path (?argv ! 2) d)) (filter accepted entries), fs1)"
    by blast
  then have run2: "main small batch fs1 ?argv
      = Some (0, [UpToDate ''tiles/r.0.0.png'', UpToDate ''tiles/r.1.0.png''], fs1)"
    by (simp add: steady_dir accepted_def batch_names output_path_def)
  from inst da apart have again: "doRegion small batch fsb ''in'' ''out'' = Some ([UpToDate ''out''], fsb)"
    by blast
  from run1 calm1 same run2 da apart again show ?thesis
    by blast
qed

section \<open>The file name test at a truncated name\<close>

text \<open>
  Claim C3. The claim fails on the code at the entry \<^verbatim>\<open>r.1.2\<close>: the scan yields 1 and 2,
  formatting them gives \<^verbatim>\<open>r.1.2.mca\<close>, which is not the entry, and the rule as specified
  rejects it; but \<^verbatim>\<open>snprintf\<close> is given the length of the entry as its size and cuts the
  formatted text to it, so \<^verbatim>\<open>memcmp\<close> finds the bytes equal and the entry is accepted:
  \<^verbatim>\<open>main\<close> generates the output \<^verbatim>\<open>r.png\<close> from it. (The two names of the claim are
  treated as it says, see \<open>region_filename_examples\<close>.)
\<close>

theorem region_filename_accepts_truncated_name:
  "region_filename ''r.1.2'' = Some (1, 2)
   \<and> format_region 1 2 = ''r.1.2.mca''
   \<and> exact_region_filename ''r.1.2'' = None
   \<and> (\<exists>(img::grid) fs'.
         main small stray stray_world [''minedmap'', ''world'', ''tiles'']
           = Some (0, [Generating ''tiles/r.png'' ''world/region/r.1.2''], fs')
       \<and> fs' ''tiles/r.png''
           = Some \<lparr>content = PNG (cells img), mtim = at_time 10 0, atim = at_time 10 0\<rparr>)"
proof -
  have name: "region_filename ''r.1.2'' = Some (1, 2)"
    by code_simp
  have canonical: "format_region 1 2 = ''r.1.2.mca''"
    by code_simp
  have exact: "exact_region_filename ''r.1.2'' = None"
    by code_simp
  have dir: "opendir stray ''world/region'' = Some [''r.1.2'']"
    by (simp add: stray_def)
  from doRegion_no_failure [of stray_world "''world/region/r.1.2''" "region_file 10 0"
      "''tiles/r.png''" stray]
  obtain img :: grid where
    "doRegion small stray stray_world ''world/region/r.1.2'' ''tiles/r.png''
       = Some ([Generating ''tiles/r.png'' ''world/region/r.1.2''],
               (stray_world(''tiles/r.png.tmp'' := None))(''tiles/r.png'' \<mapsto>
                  \<lparr>content = PNG (cells img), mtim = at_time 10 0, atim = at_time 10 0\<rparr>))"
    by (auto simp: stray_world_def region_file_def)
  then have "main small stray stray_world [''minedmap'', ''world'', ''tiles'']
      = Some (0, [Generating ''tiles/r.png'' ''world/region/r.1.2''],
              (stray_world(''tiles/r.png.tmp'' := None))(''tiles/r.png'' \<mapsto>
                  \<lparr>content = PNG (cells img), mtim = at_time 10 0, atim = at_time 10 0\<rparr>))"
    by (simp add: main_def dir name input_path_def output_path_def)
  then have "\<exists>(img::grid) fs'.
         main small stray stray_world [''minedmap'', ''world'', ''tiles'']
           = Some (0, [Generating ''tiles/r.png'' ''world/region/r.1.2''], fs')
       \<and> fs' ''tiles/r.png''
           = Some \<lparr>content = PNG (cells img), mtim = at_time 10 0, atim = at_time 10 0\<rparr>"
    by simp blast
  with name canonical exact show ?thesis by simp
qed

end
